theory Spec2Isabelle
  imports Main "HOL-Library.Sublist"
begin

section \<open>Values, exceptions, log records\<close>

text \<open>
  The values that \<^verbatim>\<open>json.load\<close> can hand to the program, and that the program hands to
  \<^verbatim>\<open>json.dumps\<close>: Python's \<^verbatim>\<open>None\<close>, booleans, integers, strings, lists and dictionaries
  with string keys. A dictionary keeps its insertion order, so it is an association list.
  JSON floating point numbers are left out. A Python \<^verbatim>\<open>str\<close> is a \<open>string\<close>.
\<close>

datatype pyval =
    PNone
  | PBool bool
  | PInt int
  | PStr string
  | PList "pyval list"
  | PDict "(string \<times> pyval) list"

text \<open>
  An exception is its class and its message (\<^verbatim>\<open>str(e)\<close>). \<open>RequestException\<close> stands for
  \<^verbatim>\<open>requests.RequestException\<close> and all its subclasses (\<^verbatim>\<open>HTTPError\<close>, \<^verbatim>\<open>ConnectionError\<close>,
  \<^verbatim>\<open>Timeout\<close>, ...), which is all that \<^verbatim>\<open>except requests.RequestException\<close> tells apart.
\<close>

datatype exn_class =
    RequestException
  | JSONDecodeError
  | XMLSyntaxError
  | OSError
  | TypeError
  | ValueError
  | KeyError
  | RecursionError

datatype exn = Exn exn_class string

fun exn_class_of :: "exn \<Rightarrow> exn_class" where
  "exn_class_of (Exn c m) = c"

fun str_exn :: "exn \<Rightarrow> string" where
  "str_exn (Exn c m) = m"

text \<open>
  A log record: the level, the message of the source's f-string with \<^verbatim>\<open>{}\<close> for each
  interpolated value, and the interpolated values in order.
\<close>

datatype level = DEBUG | INFO | WARNING | ERROR

datatype logarg = S string | N nat | L "string list"

type_synonym log_entry = "level \<times> string \<times> logarg list"

section \<open>The environment: libraries, network and file permissions\<close>

text \<open>
  \<^verbatim>\<open>root = etree.fromstring(...)\<close>: the program reads \<^verbatim>\<open>root.tag\<close> and calls
  \<^verbatim>\<open>root.xpath(query, namespaces=...)\<close> with the one namespace map
  \<^verbatim>\<open>{'sm': 'http://www.sitemaps.org/schemas/sitemap/0.9'}\<close>.
\<close>

record element =
  tag :: string
  xpath :: "string \<Rightarrow> string list"

text \<open>What the program reads of \<^verbatim>\<open>urlparse(url)\<close>.\<close>

record parse_result =
  scheme :: string
  netloc :: string

text \<open>
  What the program reads of a \<^verbatim>\<open>requests\<close> response: what \<^verbatim>\<open>raise_for_status()\<close> does
  (\<open>http_error\<close> is the message of the \<^verbatim>\<open>HTTPError\<close> it raises for a 4xx or 5xx status,
  \<open>None\<close> when it returns), the \<^verbatim>\<open>Content-Type\<close> header (\<open>None\<close> when absent) and
  \<^verbatim>\<open>text\<close>.
\<close>

record response =
  http_error :: "string option"
  content_type :: "string option"
  resp_text :: string

text \<open>
  The library calls and the outcome of the system calls are parameters of the model.
  \<open>Inl\<close> is the exception the call raises.
\<close>

record env =
  requests_get :: "string \<Rightarrow> exn + response"
  urlparse :: "string \<Rightarrow> exn + parse_result"
  urljoin :: "string \<Rightarrow> string \<Rightarrow> exn + string"
  etree_fromstring :: "string \<Rightarrow> exn + element"
  json_load :: "string \<Rightarrow> exn + pyval"
  json_dumps :: "nat \<Rightarrow> pyval \<Rightarrow> exn + string"
  open_read_error :: "string \<Rightarrow> string option"
  open_write_error :: "string \<Rightarrow> string option"
  replace_error :: "string \<Rightarrow> string option"
  recursion_limit :: nat

text \<open>
  \<open>open_read_error e p\<close> is the message of the \<^verbatim>\<open>OSError\<close> that \<^verbatim>\<open>open(p, 'r')\<close> raises on
  an existing path \<open>p\<close> (permissions, a directory), \<open>open_write_error\<close> the same for
  \<^verbatim>\<open>open(p, 'w')\<close>, \<open>replace_error e dst\<close> for \<^verbatim>\<open>os.replace(src, dst)\<close>; \<open>None\<close> when the call
  succeeds. \<open>recursion_limit\<close> is the number of nested calls of \<^verbatim>\<open>fetch_sitemap\<close> and
  \<^verbatim>\<open>parse_sitemap\<close> that the interpreter allows before it raises \<^verbatim>\<open>RecursionError\<close>.
\<close>

section \<open>The known-URL store\<close>

text \<open>The disk: the content of each file that exists.\<close>

type_synonym fs = "string \<Rightarrow> string option"

definition KNOWN_URLS_FILE :: string where
  "KNOWN_URLS_FILE = ''known_urls.json''"

definition path_exists :: "fs \<Rightarrow> string \<Rightarrow> bool" where
  "path_exists d p = (d p \<noteq> None)"

text \<open>\<^verbatim>\<open>open(p, 'r')\<close> followed by \<^verbatim>\<open>read()\<close>.\<close>

definition open_r :: "env \<Rightarrow> fs \<Rightarrow> string \<Rightarrow> exn + string" where
  "open_r e d p =
     (case d p of
        None \<Rightarrow>
          Inl (Exn OSError (''[Errno 2] No such file or directory: '' @ CHR 0x27 # p @ [CHR 0x27]))
      | Some c \<Rightarrow>
          (case open_read_error e p of
             Some m \<Rightarrow> Inl (Exn OSError m)
           | None \<Rightarrow> Inr c))"

text \<open>\<^verbatim>\<open>open(p, 'w')\<close>: creates the file or truncates it.\<close>

definition open_w :: "env \<Rightarrow> fs \<Rightarrow> string \<Rightarrow> exn + fs" where
  "open_w e d p =
     (case open_write_error e p of
        Some m \<Rightarrow> Inl (Exn OSError m)
      | None \<Rightarrow> Inr (d(p \<mapsto> [])))"

definition file_write :: "fs \<Rightarrow> string \<Rightarrow> string \<Rightarrow> fs" where
  "file_write d p c = d(p \<mapsto> (case d p of None \<Rightarrow> [] | Some old \<Rightarrow> old) @ c)"

text \<open>\<^verbatim>\<open>os.replace(src, dst)\<close>.\<close>

definition os_replace :: "env \<Rightarrow> fs \<Rightarrow> string \<Rightarrow> string \<Rightarrow> exn + fs" where
  "os_replace e d src dst =
     (case replace_error e dst of
        Some m \<Rightarrow> Inl (Exn OSError m)
      | None \<Rightarrow>
          (case d src of
             None \<Rightarrow>
               Inl (Exn OSError (''[Errno 2] No such file or directory: '' @
                 CHR 0x27 # src @ [CHR 0x27]))
           | Some c \<Rightarrow> Inr ((d(src := None))(dst \<mapsto> c))))"

fun is_dict :: "pyval \<Rightarrow> bool" where
  "is_dict (PDict kv) = True"
| "is_dict v = False"

text \<open>\<^verbatim>\<open>type(v).__name__\<close>, and \<^verbatim>\<open>type(v)\<close> as an f-string prints it.\<close>

fun type_name :: "pyval \<Rightarrow> string" where
  "type_name PNone = ''NoneType''"
| "type_name (PBool b) = ''bool''"
| "type_name (PInt i) = ''int''"
| "type_name (PStr s) = ''str''"
| "type_name (PList xs) = ''list''"
| "type_name (PDict kv) = ''dict''"

definition type_repr :: "pyval \<Rightarrow> string" where
  "type_repr v = ''<class '' @ CHR 0x27 # type_name v @ CHR 0x27 # ''>''"

text \<open>
  \<^verbatim>\<open>load_known_urls\<close>. The body of the outer \<^verbatim>\<open>try\<close> comes first, with the exception it
  lets through; the function itself adds the outer \<^verbatim>\<open>except Exception\<close>.
\<close>

definition load_known_urls_body :: "env \<Rightarrow> fs \<Rightarrow> fs \<times> log_entry list \<times> (exn + pyval)" where
  "load_known_urls_body e d =
     (if path_exists d KNOWN_URLS_FILE then
        (case open_r e d KNOWN_URLS_FILE of
           Inl ex \<Rightarrow> (d, [], Inl ex)
         | Inr content \<Rightarrow>
             (case json_load e content of
                Inr data \<Rightarrow> (d, [], Inr data)
              | Inl json_err \<Rightarrow>
                  if exn_class_of json_err = JSONDecodeError then
                    (let backup_file = KNOWN_URLS_FILE @ ''.bak'';
                         lg = [(ERROR, ''Invalid JSON in {}: {}'',
                                  [S KNOWN_URLS_FILE, S (str_exn json_err)]),
                               (INFO, ''Creating backup of corrupted file as {}'',
                                  [S backup_file])]
                     in case open_w e d backup_file of
                          Inl backup_err \<Rightarrow>
                            (d, lg @ [(ERROR, ''Failed to create backup: {}'',
                                         [S (str_exn backup_err)])], Inr (PDict []))
                        | Inr d1 \<Rightarrow>
                            (case open_r e d1 KNOWN_URLS_FILE of
                               Inl backup_err \<Rightarrow>
                                 (d1, lg @ [(ERROR, ''Failed to create backup: {}'',
                                               [S (str_exn backup_err)])], Inr (PDict []))
                             | Inr original \<Rightarrow>
                                 (file_write d1 backup_file original, lg, Inr (PDict []))))
                  else (d, [], Inl json_err)))
      else (d, [], Inr (PDict [])))"

definition load_known_urls :: "env \<Rightarrow> fs \<Rightarrow> fs \<times> log_entry list \<times> (exn + pyval)" where
  "load_known_urls e d =
     (case load_known_urls_body e d of
        (d1, lg, Inl ex) \<Rightarrow>
          (d1, lg @ [(ERROR, ''Error loading known URLs: {}'', [S (str_exn ex)])],
           Inr (PDict []))
      | (d1, lg, Inr data) \<Rightarrow> (d1, lg, Inr data))"

text \<open>
  \<^verbatim>\<open>save_known_urls\<close>. The early \<^verbatim>\<open>return\<close> and the normal end both give \<open>Inr ()\<close>; every
  exception of the body is caught by its \<^verbatim>\<open>except Exception\<close>.
\<close>

definition save_known_urls :: "env \<Rightarrow> fs \<Rightarrow> pyval \<Rightarrow> fs \<times> log_entry list \<times> (exn + unit)" where
  "save_known_urls e d known_urls =
     (let lg0 = (if \<not> is_dict known_urls
                 then [(ERROR, ''Expected a dictionary for known_urls, got {}'',
                          [S (type_repr known_urls)])]
                 else []);
          known_urls1 = (if \<not> is_dict known_urls then PDict [] else known_urls)
      in case json_dumps e 2 known_urls1 of
           Inl json_err \<Rightarrow>
             (d, lg0 @ [(ERROR, ''Cannot serialize known_urls to JSON: {}'',
                           [S (str_exn json_err)])], Inr ())
         | Inr json_data \<Rightarrow>
             (let temp_file = KNOWN_URLS_FILE @ ''.tmp''
              in case open_w e d temp_file of
                   Inl ex \<Rightarrow>
                     (d, lg0 @ [(ERROR, ''Error saving known URLs: {}'', [S (str_exn ex)])],
                      Inr ())
                 | Inr d1 \<Rightarrow>
                     (let d2 = file_write d1 temp_file json_data
                      in case os_replace e d2 temp_file KNOWN_URLS_FILE of
                           Inl ex \<Rightarrow>
                             (d2, lg0 @ [(ERROR, ''Error saving known URLs: {}'',
                                            [S (str_exn ex)])], Inr ())
                         | Inr d3 \<Rightarrow> (d3, lg0, Inr ()))))"

section \<open>Strings and the four regular expressions\<close>

text \<open>
  A character is a code point below 256. \<^verbatim>\<open>str.lower()\<close> on those: the letters A to Z and
  the capital letters of Latin-1 (0xC0 to 0xDE without the multiplication sign 0xD7).
\<close>

definition lower_char :: "char \<Rightarrow> char" where
  "lower_char c =
     (let n = (of_char c :: nat)
      in if (65 \<le> n \<and> n \<le> 90) \<or> (192 \<le> n \<and> n \<le> 222 \<and> n \<noteq> 215)
         then char_of (n + 32) else c)"

definition lower :: "string \<Rightarrow> string" where
  "lower s = map lower_char s"

text \<open>\<^verbatim>\<open>sub in s\<close>, \<^verbatim>\<open>s.startswith(p)\<close> and \<^verbatim>\<open>s.endswith(p)\<close> on strings.\<close>

definition py_in :: "string \<Rightarrow> string \<Rightarrow> bool" where
  "py_in sub s = sublist sub s"

definition startswith :: "string \<Rightarrow> string \<Rightarrow> bool" where
  "startswith s p = prefix p s"

definition endswith :: "string \<Rightarrow> string \<Rightarrow> bool" where
  "endswith s p = suffix p s"

text \<open>
  \<^verbatim>\<open>re.findall(pattern, s)\<close> for a pattern with one group that never matches the empty
  string: the scan goes from left to right; where the pattern matches, the group is kept
  and the scan goes on behind the match, elsewhere it moves one character on. The
  matcher \<open>m\<close> says whether the pattern matches at the start of its argument, and gives the
  group and the length of the match.
\<close>

fun findall :: "(string \<Rightarrow> (string \<times> nat) option) \<Rightarrow> string \<Rightarrow> string list" where
  "findall m [] = []"
| "findall m (c # cs) =
     (case m (c # cs) of
        None \<Rightarrow> findall m cs
      | Some (g, k) \<Rightarrow> g # findall m (drop (k - 1) cs))"

text \<open>\<^verbatim>\<open>https?://\<close> at the start of \<open>s\<close>: the length of what it matches.\<close>

definition match_scheme :: "string \<Rightarrow> nat option" where
  "match_scheme s =
     (if prefix ''https://'' s then Some 8
      else if prefix ''http://'' s then Some 7
      else None)"

text \<open>
  \<^verbatim>\<open><loc>(https?://[^<]+)</loc>\<close>. The greedy \<^verbatim>\<open>[^<]+\<close> runs to the next \<^verbatim>\<open><\<close>, and the
  closing tag has to start there.
\<close>

definition match_loc :: "string \<Rightarrow> (string \<times> nat) option" where
  "match_loc s =
     (if prefix ''<loc>'' s then
        (let r = drop 5 s
         in case match_scheme r of
              None \<Rightarrow> None
            | Some k \<Rightarrow>
                (let b = takeWhile (\<lambda>c. c \<noteq> CHR ''<'') (drop k r)
                 in if b \<noteq> [] \<and> prefix ''</loc>'' (drop (k + length b) r)
                    then Some (take (k + length b) r, 5 + k + length b + 6)
                    else None))
      else None)"

definition findall_loc :: "string \<Rightarrow> string list" where
  "findall_loc s = findall match_loc s"

text \<open>
  \<^verbatim>\<open>\s\<close> on a \<^verbatim>\<open>str\<close>: the white space of Unicode, which below 256 is 9 to 13, 28 to 32,
  0x85 and 0xA0.
\<close>

definition is_space :: "char \<Rightarrow> bool" where
  "is_space c =
     (let n = (of_char c :: nat)
      in (9 \<le> n \<and> n \<le> 13) \<or> (28 \<le> n \<and> n \<le> 32) \<or> n = 133 \<or> n = 160)"

text \<open>
  \<^verbatim>\<open>(?i)sitemap:\s*(https?://\S+)\<close>. The flag makes the literal letters match in either
  case; the group is the text as it stands in \<open>s\<close>.
\<close>

definition match_sitemap_line :: "string \<Rightarrow> (string \<times> nat) option" where
  "match_sitemap_line s =
     (if prefix ''sitemap:'' (lower (take 8 s)) then
        (let ws = takeWhile is_space (drop 8 s);
             r = drop (8 + length ws) s
         in case match_scheme (lower (take 8 r)) of
              None \<Rightarrow> None
            | Some k \<Rightarrow>
                (let b = takeWhile (\<lambda>c. \<not> is_space c) (drop k r)
                 in if b \<noteq> []
                    then Some (take (k + length b) r, 8 + length ws + k + length b)
                    else None))
      else None)"

definition findall_sitemap_line :: "string \<Rightarrow> string list" where
  "findall_sitemap_line s = findall match_sitemap_line s"

text \<open>
  The two \<^verbatim>\<open>href\<close> patterns have the shape \<^verbatim>\<open>href=['"](G)['"]\<close> where \<^verbatim>\<open>G\<close> matches no
  quote: the group is the text from the opening quote to the next quote of either kind,
  and the pattern matches when that text has the form \<^verbatim>\<open>G\<close> asks for.
\<close>

definition is_quote :: "char \<Rightarrow> bool" where
  "is_quote c = (c = CHR 0x27 \<or> c = CHR 0x22)"

definition match_href :: "(string \<Rightarrow> bool) \<Rightarrow> string \<Rightarrow> (string \<times> nat) option" where
  "match_href form s =
     (if prefix ''href='' s then
        (case drop 5 s of
           [] \<Rightarrow> None
         | q # r \<Rightarrow>
             (let v = takeWhile (\<lambda>c. \<not> is_quote c) r
              in if is_quote q \<and> drop (length v) r \<noteq> [] \<and> form v
                 then Some (v, 5 + 1 + length v + 1)
                 else None))
      else None)"

text \<open>
  \<^verbatim>\<open>[^'"]*sitemap[^'"]*\.xml\<close>: the text ends with \<^verbatim>\<open>.xml\<close> and \<^verbatim>\<open>sitemap\<close> occurs before
  that ending.
\<close>

definition sitemap_xml_form :: "string \<Rightarrow> bool" where
  "sitemap_xml_form v =
     (suffix ''.xml'' v \<and> sublist ''sitemap'' (take (length v - 4) v))"

definition findall_sitemap_href :: "string \<Rightarrow> string list" where
  "findall_sitemap_href s = findall (match_href sitemap_xml_form) s"

text \<open>
  \<^verbatim>\<open>[^'"]*?(?:\/[^'"]*?)+?(?:\.html?|\/|\.php)\<close>: the text ends with \<^verbatim>\<open>.htm\<close>,
  \<^verbatim>\<open>.html\<close>, \<^verbatim>\<open>/\<close> or \<^verbatim>\<open>.php\<close>, and a \<^verbatim>\<open>/\<close> occurs before that ending.
\<close>

definition page_form :: "string \<Rightarrow> bool" where
  "page_form v =
     (\<exists>suf \<in> set [''.htm'', ''.html'', ''/'', ''.php''].
        suffix suf v \<and> CHR ''/'' \<in> set (take (length v - length suf) v))"

definition findall_page_href :: "string \<Rightarrow> string list" where
  "findall_page_href s = findall (match_href page_form) s"

section \<open>Fetching\<close>

text \<open>
  \<^verbatim>\<open>fetch_sitemap\<close> returns the log records it wrote and either the exception it raised or
  the content. Its parts, in the order of the source: the site-specific fixes, the
  automatic \<^verbatim>\<open>sitemap.xml\<close> suffix, the \<^verbatim>\<open>robots.txt\<close> case, the HTML case; \<open>rec\<close> is the
  recursive call.
\<close>

type_synonym fetched = "log_entry list \<times> (exn + string)"

definition site_specific :: "string \<Rightarrow> string \<Rightarrow> log_entry list \<times> (exn + string \<times> bool)" where
  "site_specific url domain =
     (if domain = ''github.com'' \<and> \<not> py_in ''sitemap'' (lower url) then
        ([(INFO, ''GitHub detected. GitHub restricts sitemap access, using direct page approach'', []),
          (INFO, ''Using GitHub homepage directly: {}'', [S ''https://github.com/''])],
         Inr (''https://github.com/'', True))
      else if domain = ''twitter.com'' \<or> domain = ''x.com'' then
        ([(WARNING, ''Twitter/X doesn't provide public sitemaps'', [])],
         Inl (Exn RequestException ''This site doesn't provide public sitemaps''))
      else if domain = ''google.com'' \<or> domain = ''www.google.com'' then
        ([(INFO, ''Google detected, using Google Search sitemap'', [])],
         Inr (''https://www.google.com/sitemap.xml'', False))
      else ([], Inr (url, False)))"

definition auto_fix :: "string \<Rightarrow> bool \<Rightarrow> log_entry list \<times> string" where
  "auto_fix original_url special_case =
     (if \<not> endswith original_url ''.xml'' \<and> \<not> py_in ''sitemap'' (lower original_url)
         \<and> \<not> py_in ''robots.txt'' (lower original_url) \<and> \<not> special_case then
        (let url = (if endswith original_url ''/'' then original_url @ ''sitemap.xml''
                    else original_url @ ''/sitemap.xml'')
         in ([(INFO, ''URL doesn't appear to be a sitemap URL, trying {} instead of {}'',
                [S url, S original_url])], url))
      else ([], original_url))"

definition robots_case :: "(string \<Rightarrow> bool \<Rightarrow> fetched) \<Rightarrow> string \<Rightarrow> bool \<Rightarrow> fetched" where
  "robots_case rec content from_robots_redirect =
     (let lg0 = [(INFO, ''Parsing robots.txt to find sitemap references'', [])];
          sitemap_urls = findall_sitemap_line content
      in case sitemap_urls of
           [] \<Rightarrow>
             (lg0 @ [(WARNING, ''No sitemaps found in robots.txt'', [])],
              Inl (Exn RequestException ''No sitemaps found in robots.txt''))
         | sitemap_url # others \<Rightarrow>
             (let lg1 = lg0 @
                    [(INFO, ''Found {} sitemap(s) in robots.txt'', [N (length sitemap_urls)]),
                     (INFO, ''Using first sitemap from robots.txt: {}'', [S sitemap_url])]
              in if from_robots_redirect then
                   (lg1 @ [(WARNING, ''Already redirected from robots.txt, not following another redirect to avoid recursion'', [])],
                    Inr content)
                 else
                   (let lg2 = lg1 @
                          [(INFO, ''Following sitemap from robots.txt (one level only)'', [])]
                    in case rec sitemap_url True of
                         (lg3, Inr new_content) \<Rightarrow> (lg2 @ lg3, Inr new_content)
                       | (lg3, Inl ex) \<Rightarrow>
                           (lg2 @ lg3 @
                              [(ERROR, ''Error following robots.txt redirect: {}'',
                                  [S (str_exn ex)])],
                            Inr content))))"

text \<open>
  The part after the link search of the HTML case: \<^verbatim>\<open>robots.txt\<close> of the same origin is
  requested directly. \<open>None\<close> as a result means that the source falls through to its last
  line, \<^verbatim>\<open>return content\<close>.
\<close>

definition robots_lookup ::
  "env \<Rightarrow> parse_result \<Rightarrow> log_entry list \<times> (exn + string) option" where
  "robots_lookup e parsed_url =
     (let robots_url = scheme parsed_url @ ''://'' @ netloc parsed_url @ ''/robots.txt'';
          lg0 = [(INFO, ''No sitemap links found in HTML, checking robots.txt at {}'',
                    [S robots_url])]
      in case requests_get e robots_url of
           Inl ex \<Rightarrow>
             if exn_class_of ex = RequestException
             then (lg0 @ [(ERROR, ''Failed to fetch robots.txt: {}'', [S (str_exn ex)])], None)
             else (lg0, Some (Inl ex))
         | Inr robots_response \<Rightarrow>
             (case findall_sitemap_line (resp_text robots_response) of
                [] \<Rightarrow> (lg0 @ [(INFO, ''No sitemap references found in robots.txt'', [])], None)
              | sitemap_ref # others \<Rightarrow>
                  (let lg1 = lg0 @ [(INFO, ''Found sitemap in robots.txt: {}'', [S sitemap_ref])]
                   in case requests_get e sitemap_ref of
                        Inr direct_sitemap_response \<Rightarrow>
                          (lg1, Some (Inr (resp_text direct_sitemap_response)))
                      | Inl direct_e \<Rightarrow>
                          (lg1 @ [(ERROR, ''Error fetching sitemap from robots.txt: {}'',
                                     [S (str_exn direct_e)])], None))))"

definition html_case ::
  "env \<Rightarrow> (string \<Rightarrow> bool \<Rightarrow> fetched) \<Rightarrow> parse_result \<Rightarrow> string \<Rightarrow> string \<Rightarrow> bool \<Rightarrow> fetched" where
  "html_case e rec parsed_url url content from_robots_redirect =
     (if \<not> py_in ''<?xml'' content \<and> \<not> py_in ''<urlset'' content
         \<and> \<not> py_in ''<sitemapindex'' content then
        (let lg0 = [(WARNING, ''Response doesn't appear to contain valid sitemap XML'', [])]
         in if py_in ''<html'' (lower content) then
              (let lg1 = lg0 @
                     [(INFO, ''Received HTML instead of XML, looking for sitemap link in HTML...'', [])]
               in case findall_sitemap_href content of
                    sitemap_link0 # others \<Rightarrow>
                      (let sitemap_link =
                             (if startswith sitemap_link0 ''/''
                              then scheme parsed_url @ ''://'' @ netloc parsed_url @ sitemap_link0
                              else sitemap_link0);
                           lg2 = lg1 @
                             [(INFO, ''Found sitemap link in HTML: {}'', [S sitemap_link0]),
                              (INFO, ''Attempting to fetch sitemap from link: {}'', [S sitemap_link])]
                       in case rec sitemap_link False of (lg3, r) \<Rightarrow> (lg2 @ lg3, r))
                  | [] \<Rightarrow>
                      if \<not> endswith url ''robots.txt'' \<and> \<not> from_robots_redirect then
                        (case robots_lookup e parsed_url of
                           (lg2, Some r) \<Rightarrow> (lg1 @ lg2, r)
                         | (lg2, None) \<Rightarrow> (lg1 @ lg2, Inr content))
                      else (lg1, Inr content))
            else (lg0, Inr content))
      else ([], Inr content))"

text \<open>The \<^verbatim>\<open>try\<close> block of \<^verbatim>\<open>fetch_sitemap\<close>, without its \<^verbatim>\<open>except\<close> clause.\<close>

definition request_and_follow ::
  "env \<Rightarrow> (string \<Rightarrow> bool \<Rightarrow> fetched) \<Rightarrow> parse_result \<Rightarrow> string \<Rightarrow> bool \<Rightarrow> fetched" where
  "request_and_follow e rec parsed_url url from_robots_redirect =
     (let lg0 = [(INFO, ''Sending request to {}'', [S url])]
      in case requests_get e url of
           Inl ex \<Rightarrow> (lg0, Inl ex)
         | Inr resp \<Rightarrow>
             (let ctype = (case content_type resp of None \<Rightarrow> [] | Some c \<Rightarrow> c);
                  lg1 = lg0 @
                    (if \<not> (py_in ''xml'' (lower ctype) \<or> py_in ''text/plain'' (lower ctype))
                     then [(WARNING, ''Response content type '{}' may not be a proper sitemap format'',
                              [S ctype])]
                     else [])
              in case http_error resp of
                   Some m \<Rightarrow> (lg1, Inl (Exn RequestException m))
                 | None \<Rightarrow>
                     (let content = resp_text resp
                      in if py_in ''robots.txt'' (lower url) then
                           (case robots_case rec content from_robots_redirect of
                              (lg2, r) \<Rightarrow> (lg1 @ lg2, r))
                         else
                           (case html_case e rec parsed_url url content from_robots_redirect of
                              (lg2, r) \<Rightarrow> (lg1 @ lg2, r)))))"

definition fetch_sitemap_body ::
  "env \<Rightarrow> (string \<Rightarrow> bool \<Rightarrow> fetched) \<Rightarrow> string \<Rightarrow> bool \<Rightarrow> fetched" where
  "fetch_sitemap_body e rec url0 from_robots_redirect =
     (case urlparse e url0 of
        Inl ex \<Rightarrow> ([], Inl ex)
      | Inr parsed_url \<Rightarrow>
          (case site_specific url0 (lower (netloc parsed_url)) of
             (lg0, Inl ex) \<Rightarrow> (lg0, Inl ex)
           | (lg0, Inr (url1, special_case)) \<Rightarrow>
               (case auto_fix url1 special_case of
                  (lg1, url) \<Rightarrow>
                    (case request_and_follow e rec parsed_url url from_robots_redirect of
                       (lg2, Inr content) \<Rightarrow> (lg0 @ lg1 @ lg2, Inr content)
                     | (lg2, Inl ex) \<Rightarrow>
                         if exn_class_of ex = RequestException then
                           (lg0 @ lg1 @ lg2 @
                              [(ERROR, ''Error fetching sitemap {}: {}'', [S url, S (str_exn ex)])],
                            Inl ex)
                         else (lg0 @ lg1 @ lg2, Inl ex)))))"

text \<open>
  \<^verbatim>\<open>fetch_sitemap\<close>. The first argument is the number of nested calls that the recursion
  limit still allows; the call that exceeds it raises \<^verbatim>\<open>RecursionError\<close>.
\<close>

definition recursion_error :: exn where
  "recursion_error = Exn RecursionError ''maximum recursion depth exceeded''"

fun fetch_sitemap :: "env \<Rightarrow> nat \<Rightarrow> string \<Rightarrow> bool \<Rightarrow> fetched" where
  "fetch_sitemap e 0 url from_robots_redirect = ([], Inl recursion_error)"
| "fetch_sitemap e (Suc n) url from_robots_redirect =
     fetch_sitemap_body e (\<lambda>u f. fetch_sitemap e n u f) url from_robots_redirect"

section \<open>Parsing\<close>

text \<open>
  A Python set of strings is the list of its elements, each once. The list has them in
  the order of insertion; Python leaves the order of a set open, and the properties below
  read these lists through \<open>set\<close> and \<open>length\<close> only.
\<close>

definition set_add :: "string list \<Rightarrow> string \<Rightarrow> string list" where
  "set_add urls u = (if u \<in> set urls then urls else urls @ [u])"

definition set_update :: "string list \<Rightarrow> string list \<Rightarrow> string list" where
  "set_update urls us = foldl set_add urls us"

type_synonym parsed = "log_entry list \<times> (exn + string list)"

text \<open>
  The loop over \<^verbatim>\<open>html_urls\<close> in the HTML case of \<^verbatim>\<open>parse_sitemap\<close>; \<open>urls\<close> is the set built
  so far. \<^verbatim>\<open>urljoin\<close> is called outside every \<^verbatim>\<open>try\<close>, so its exception ends the loop and
  leaves \<^verbatim>\<open>parse_sitemap\<close>.
\<close>

fun html_urls_loop :: "env \<Rightarrow> string \<Rightarrow> string list \<Rightarrow> string list \<Rightarrow> exn + string list" where
  "html_urls_loop e base_url [] urls = Inr urls"
| "html_urls_loop e base_url (url # rest) urls =
     (if startswith url ''/'' then
        (case urljoin e base_url url of
           Inl ex \<Rightarrow> Inl ex
         | Inr absolute_url \<Rightarrow> html_urls_loop e base_url rest (set_add urls absolute_url))
      else if startswith url ''http://'' \<or> startswith url ''https://'' then
        html_urls_loop e base_url rest (set_add urls url)
      else html_urls_loop e base_url rest urls)"

text \<open>The base URL that the HTML case takes from \<^verbatim>\<open>urlparse\<close> of the content (lines 242 to 246).\<close>

definition base_url_of :: "parse_result \<Rightarrow> string" where
  "base_url_of parsed_content_url =
     (if netloc parsed_content_url \<noteq> []
      then scheme parsed_content_url @ ''://'' @ netloc parsed_content_url
      else ''https://example.com'')"

text \<open>The HTML case of \<^verbatim>\<open>parse_sitemap\<close>, once \<^verbatim>\<open>html_urls\<close> is known not to be empty.\<close>

definition html_urls_case :: "env \<Rightarrow> string \<Rightarrow> string list \<Rightarrow> parsed" where
  "html_urls_case e sitemap_content html_urls =
     (let lg = [(INFO, ''Extracted {} URLs from HTML content'', [N (length html_urls)])]
      in case urlparse e (take 1000 sitemap_content) of
           Inl ex \<Rightarrow> (lg, Inl ex)
         | Inr parsed_content_url \<Rightarrow>
             (let base_url = base_url_of parsed_content_url
              in (lg, html_urls_loop e base_url html_urls [])))"

text \<open>
  The loop over the sub-sitemaps of an index: \<open>fetch\<close> and \<open>rec\<close> are the calls of
  \<^verbatim>\<open>fetch_sitemap\<close> and \<^verbatim>\<open>parse_sitemap\<close>, \<open>urls\<close> is the set built so far.
\<close>

fun index_loop ::
  "(string \<Rightarrow> fetched) \<Rightarrow> (string \<Rightarrow> parsed) \<Rightarrow> string list \<Rightarrow> string list
     \<Rightarrow> log_entry list \<times> string list" where
  "index_loop fetch rec [] urls = ([], urls)"
| "index_loop fetch rec (sitemap # rest) urls =
     (case (case fetch sitemap of
              (lg1, Inl sub_e) \<Rightarrow>
                (lg1 @ [(ERROR, ''Error processing sub-sitemap {}: {}'',
                           [S sitemap, S (str_exn sub_e)])], urls)
            | (lg1, Inr sub_sitemap_content) \<Rightarrow>
                (case rec sub_sitemap_content of
                   (lg2, Inl sub_e) \<Rightarrow>
                     (lg1 @ lg2 @ [(ERROR, ''Error processing sub-sitemap {}: {}'',
                                      [S sitemap, S (str_exn sub_e)])], urls)
                 | (lg2, Inr sub_urls) \<Rightarrow> (lg1 @ lg2, set_update urls sub_urls))) of
        (lg, urls1) \<Rightarrow>
          (case index_loop fetch rec rest urls1 of
             (lg', urls2) \<Rightarrow> (lg @ lg', urls2)))"

text \<open>The \<^verbatim>\<open>try\<close> statement of \<^verbatim>\<open>parse_sitemap\<close> with its \<^verbatim>\<open>except Exception\<close> clause.\<close>

definition xml_case ::
  "env \<Rightarrow> (string \<Rightarrow> fetched) \<Rightarrow> (string \<Rightarrow> parsed) \<Rightarrow> string \<Rightarrow> parsed" where
  "xml_case e fetch rec sitemap_content =
     (case etree_fromstring e sitemap_content of
        Inl ex \<Rightarrow>
          (let lg = [(ERROR, ''Error parsing sitemap XML: {}'', [S (str_exn ex)]),
                     (INFO, ''Attempting fallback to regex-based parsing'', [])];
               all_urls = findall_loc sitemap_content
           in if all_urls \<noteq> [] then
                (lg @ [(INFO, ''Regex fallback found {} URLs'', [N (length all_urls)])],
                 Inr (set_update [] all_urls))
              else (lg, Inl ex))
      | Inr root \<Rightarrow>
          if endswith (tag root) ''sitemapindex'' then
            (case index_loop fetch rec (xpath root ''//sm:sitemap/sm:loc/text()'') [] of
               (lg, urls) \<Rightarrow> (lg, Inr urls))
          else ([], Inr (set_update [] (xpath root ''//sm:url/sm:loc/text()''))))"

definition parse_sitemap_body ::
  "env \<Rightarrow> (string \<Rightarrow> fetched) \<Rightarrow> (string \<Rightarrow> parsed) \<Rightarrow> string \<Rightarrow> parsed" where
  "parse_sitemap_body e fetch rec sitemap_content =
     (if py_in ''<html'' (lower sitemap_content)
         \<and> (\<not> py_in ''<?xml'' sitemap_content \<and> \<not> py_in ''<urlset'' sitemap_content) then
        (let lg0 = [(INFO, ''Content appears to be HTML, extracting URLs from HTML'', [])];
             html_urls = findall_page_href sitemap_content
         in if html_urls \<noteq> [] then
              (case html_urls_case e sitemap_content html_urls of (lg, r) \<Rightarrow> (lg0 @ lg, r))
            else
              (case xml_case e fetch rec sitemap_content of (lg, r) \<Rightarrow> (lg0 @ lg, r)))
      else xml_case e fetch rec sitemap_content)"

text \<open>
  \<^verbatim>\<open>parse_sitemap\<close>, with the number of nested calls still allowed as for
  \<^verbatim>\<open>fetch_sitemap\<close>; the calls it makes are one level deeper.
\<close>

fun parse_sitemap :: "env \<Rightarrow> nat \<Rightarrow> string \<Rightarrow> parsed" where
  "parse_sitemap e 0 sitemap_content = ([], Inl recursion_error)"
| "parse_sitemap e (Suc n) sitemap_content =
     parse_sitemap_body e (\<lambda>u. fetch_sitemap e n u False) (\<lambda>c. parse_sitemap e n c)
       sitemap_content"

section \<open>Checking\<close>

record SitemapCheckResult =
  sitemap_url :: string
  total_urls :: nat
  new_urls :: "string list"
  error :: string

text \<open>
  \<^verbatim>\<open>known_urls\<close> is whatever \<^verbatim>\<open>json.load\<close> returned, so the operations on it are those of
  Python on a value of any type: \<^verbatim>\<open>k in c\<close>, \<^verbatim>\<open>c[k] = v\<close>, \<^verbatim>\<open>c[k]\<close>, \<^verbatim>\<open>set(c)\<close> and the
  truth value of \<^verbatim>\<open>c\<close>, with the \<^verbatim>\<open>TypeError\<close> they raise.
\<close>

fun dict_update :: "string \<Rightarrow> pyval \<Rightarrow> (string \<times> pyval) list \<Rightarrow> (string \<times> pyval) list" where
  "dict_update k v [] = [(k, v)]"
| "dict_update k v ((k', v') # kv) =
     (if k' = k then (k, v) # kv else (k', v') # dict_update k v kv)"

fun py_contains :: "pyval \<Rightarrow> string \<Rightarrow> exn + bool" where
  "py_contains (PDict kv) k = Inr (k \<in> set (map fst kv))"
| "py_contains (PList xs) k = Inr (PStr k \<in> set xs)"
| "py_contains (PStr s) k = Inr (py_in k s)"
| "py_contains c k =
     Inl (Exn TypeError (''argument of type '' @ CHR 0x27 # type_name c @ CHR 0x27 # '' is not iterable''))"

fun py_setitem :: "pyval \<Rightarrow> string \<Rightarrow> pyval \<Rightarrow> exn + pyval" where
  "py_setitem (PDict kv) k v = Inr (PDict (dict_update k v kv))"
| "py_setitem (PList xs) k v =
     Inl (Exn TypeError ''list indices must be integers or slices, not str'')"
| "py_setitem c k v =
     Inl (Exn TypeError (CHR 0x27 # type_name c @ CHR 0x27 # '' object does not support item assignment''))"

fun py_getitem :: "pyval \<Rightarrow> string \<Rightarrow> exn + pyval" where
  "py_getitem (PDict kv) k =
     (case map_of kv k of
        None \<Rightarrow> Inl (Exn KeyError (CHR 0x27 # k @ [CHR 0x27]))
      | Some v \<Rightarrow> Inr v)"
| "py_getitem (PList xs) k =
     Inl (Exn TypeError ''list indices must be integers or slices, not str'')"
| "py_getitem (PStr s) k =
     Inl (Exn TypeError (''string indices must be integers, not 'str'' @ [CHR 0x27]))"
| "py_getitem c k =
     Inl (Exn TypeError (CHR 0x27 # type_name c @ CHR 0x27 # '' object is not subscriptable''))"

fun py_iter :: "pyval \<Rightarrow> exn + pyval list" where
  "py_iter (PList xs) = Inr xs"
| "py_iter (PStr s) = Inr (map (\<lambda>c. PStr [c]) s)"
| "py_iter (PDict kv) = Inr (map (\<lambda>p. PStr (fst p)) kv)"
| "py_iter c = Inl (Exn TypeError (CHR 0x27 # type_name c @ CHR 0x27 # '' object is not iterable''))"

text \<open>
  An element of a set: lists and dictionaries cannot be hashed; \<^verbatim>\<open>True\<close> and \<^verbatim>\<open>False\<close> are
  equal to 1 and 0 and count as the same element.
\<close>

fun hashable :: "pyval \<Rightarrow> exn + pyval" where
  "hashable (PList xs) = Inl (Exn TypeError (''unhashable type: 'list'' @ [CHR 0x27]))"
| "hashable (PDict kv) = Inl (Exn TypeError (''unhashable type: 'dict'' @ [CHR 0x27]))"
| "hashable (PBool b) = Inr (PInt (if b then 1 else 0))"
| "hashable v = Inr v"

fun set_of_items :: "pyval list \<Rightarrow> pyval list \<Rightarrow> exn + pyval list" where
  "set_of_items acc [] = Inr acc"
| "set_of_items acc (x # xs) =
     (case hashable x of
        Inl ex \<Rightarrow> Inl ex
      | Inr k \<Rightarrow> set_of_items (if k \<in> set acc then acc else acc @ [k]) xs)"

definition py_set :: "pyval \<Rightarrow> exn + pyval list" where
  "py_set c = (case py_iter c of Inl ex \<Rightarrow> Inl ex | Inr xs \<Rightarrow> set_of_items [] xs)"

fun py_truthy :: "pyval \<Rightarrow> bool" where
  "py_truthy PNone = False"
| "py_truthy (PBool b) = b"
| "py_truthy (PInt i) = (i \<noteq> 0)"
| "py_truthy (PStr s) = (s \<noteq> [])"
| "py_truthy (PList xs) = (xs \<noteq> [])"
| "py_truthy (PDict kv) = (kv \<noteq> [])"

text \<open>
  The comparison with the stored URLs, lines 334 to 356 of the source: the new
  \<^verbatim>\<open>known_urls\<close>, the log records, the value of \<^verbatim>\<open>result.new_urls\<close>, and the exception that
  ended the block, if one did.
\<close>

definition diff_known ::
  "pyval \<Rightarrow> string \<Rightarrow> string list \<Rightarrow> pyval \<times> log_entry list \<times> string list \<times> exn option" where
  "diff_known known_urls url current_urls =
     (case py_contains known_urls url of
        Inl ex \<Rightarrow> (known_urls, [], [], Some ex)
      | Inr present \<Rightarrow>
          (case (if \<not> present then py_setitem known_urls url (PList []) else Inr known_urls) of
             Inl ex \<Rightarrow>
               (known_urls,
                [(INFO, ''First time checking {}, storing all URLs as known'', [S url])],
                [], Some ex)
           | Inr known1 \<Rightarrow>
               (let lg0 = (if \<not> present
                           then [(INFO, ''First time checking {}, storing all URLs as known'',
                                    [S url])]
                           else [])
                in case py_getitem known1 url of
                     Inl ex \<Rightarrow> (known1, lg0, [], Some ex)
                   | Inr stored \<Rightarrow>
                       (case py_set stored of
                          Inl ex \<Rightarrow> (known1, lg0, [], Some ex)
                        | Inr previous_urls \<Rightarrow>
                            (let new = filter (\<lambda>u. PStr u \<notin> set previous_urls) current_urls;
                                 removed_urls =
                                   filter (\<lambda>p. p \<notin> PStr ` set current_urls) previous_urls;
                                 lg1 = lg0 @
                                   (if removed_urls \<noteq> []
                                    then [(INFO, ''Found {} URLs that were removed from {}'',
                                             [N (length removed_urls), S url])]
                                    else []);
                                 checked =
                                   (INFO, ''Checked {}: found {} URLs, {} new, {} removed'',
                                      [S url, N (length current_urls), N (length new),
                                       N (length removed_urls)])
                             in if new \<noteq> [] then
                                  (case py_setitem known1 url (PList (map PStr current_urls)) of
                                     Inl ex \<Rightarrow> (known1, lg1, new, Some ex)
                                   | Inr known2 \<Rightarrow>
                                       (known2,
                                        lg1 @ [(INFO, ''Found {} new URLs in {}'',
                                                  [N (length new), S url]),
                                               (DEBUG, ''New URLs: {}'', [L new]),
                                               checked],
                                        new, None))
                                else
                                  (known1,
                                   lg1 @ [(INFO, ''No new URLs found in {}'', [S url]),
                                          checked],
                                   [], None))))))"

text \<open>One turn of the loop of \<^verbatim>\<open>check_sitemaps\<close>.\<close>

definition check_one ::
  "env \<Rightarrow> pyval \<Rightarrow> string \<Rightarrow> pyval \<times> log_entry list \<times> SitemapCheckResult" where
  "check_one e known_urls url =
     (let lg0 = [(INFO, ''Fetching sitemap from {}'', [S url])];
          failed = (\<lambda>lg fetch_err.
            (known_urls,
             lg0 @ lg @ [(ERROR, ''Error fetching/parsing sitemap {}: {}'',
                            [S url, S (str_exn fetch_err)])],
             \<lparr>sitemap_url = url, total_urls = 0, new_urls = [],
              error = str_exn fetch_err\<rparr>))
      in case fetch_sitemap e (recursion_limit e) url False of
           (lg1, Inl fetch_err) \<Rightarrow> failed lg1 fetch_err
         | (lg1, Inr sitemap_content) \<Rightarrow>
             (case parse_sitemap e (recursion_limit e) sitemap_content of
                (lg2, Inl fetch_err) \<Rightarrow> failed (lg1 @ lg2) fetch_err
              | (lg2, Inr current_urls) \<Rightarrow>
                  (case diff_known known_urls url current_urls of
                     (known1, lg3, new, None) \<Rightarrow>
                       (known1, lg0 @ lg1 @ lg2 @ lg3,
                        \<lparr>sitemap_url = url, total_urls = length current_urls,
                         new_urls = new, error = []\<rparr>)
                   | (known1, lg3, new, Some ex) \<Rightarrow>
                       (known1,
                        lg0 @ lg1 @ lg2 @ lg3 @
                          [(ERROR, ''Error checking sitemap {}: {}'', [S url, S (str_exn ex)])],
                        \<lparr>sitemap_url = url, total_urls = length current_urls,
                         new_urls = new, error = str_exn ex\<rparr>))))"

fun check_loop ::
  "env \<Rightarrow> pyval \<Rightarrow> string list \<Rightarrow> pyval \<times> log_entry list \<times> SitemapCheckResult list" where
  "check_loop e known_urls [] = (known_urls, [], [])"
| "check_loop e known_urls (url # rest) =
     (case check_one e known_urls url of
        (known1, lg1, result) \<Rightarrow>
          (case check_loop e known1 rest of
             (known2, lg2, results) \<Rightarrow> (known2, lg1 @ lg2, result # results)))"

text \<open>The first lines of \<^verbatim>\<open>check_sitemaps\<close>: the stored URLs it starts from.\<close>

definition initial_known :: "env \<Rightarrow> fs \<Rightarrow> fs \<times> log_entry list \<times> pyval" where
  "initial_known e d =
     (if \<not> path_exists d KNOWN_URLS_FILE then (d, [], PDict [])
      else
        (case load_known_urls e d of
           (d1, lg, Inr v) \<Rightarrow> (d1, lg, v)
         | (d1, lg, Inl ex) \<Rightarrow>
             (d1, lg @ [(ERROR, ''Error loading known URLs, starting fresh: {}'',
                          [S (str_exn ex)])], PDict [])))"

text \<open>The last lines of \<^verbatim>\<open>check_sitemaps\<close>: the stored URLs are written, unless empty.\<close>

definition final_save :: "env \<Rightarrow> fs \<Rightarrow> pyval \<Rightarrow> fs \<times> log_entry list" where
  "final_save e d known_urls =
     (if py_truthy known_urls then
        (case save_known_urls e d known_urls of
           (d1, lg, Inr u) \<Rightarrow> (d1, lg)
         | (d1, lg, Inl save_err) \<Rightarrow>
             (d1, lg @ [(ERROR, ''Failed to save known URLs: {}'', [S (str_exn save_err)])]))
      else (d, []))"

definition check_sitemaps ::
  "env \<Rightarrow> fs \<Rightarrow> string list \<Rightarrow> fs \<times> log_entry list \<times> SitemapCheckResult list" where
  "check_sitemaps e d sitemap_urls =
     (case initial_known e d of
        (d1, lg0, known_urls) \<Rightarrow>
          (case check_loop e known_urls sitemap_urls of
             (known1, lg1, results) \<Rightarrow>
               (case final_save e d1 known1 of
                  (d2, lg2) \<Rightarrow> (d2, lg0 @ lg1 @ lg2, results))))"

section \<open>Conditions and outcomes named in the properties\<close>

text \<open>
  \<^verbatim>\<open>parse_sitemap\<close> returns from its HTML case (lines 231 and 236 of the source): the
  content has \<^verbatim>\<open><html\<close> in some case, has neither \<^verbatim>\<open><?xml\<close> nor \<^verbatim>\<open><urlset\<close>, and the
  \<^verbatim>\<open>href\<close> pattern finds something.
\<close>

definition returns_from_html :: "string \<Rightarrow> bool" where
  "returns_from_html sitemap_content =
     (py_in ''<html'' (lower sitemap_content)
      \<and> (\<not> py_in ''<?xml'' sitemap_content \<and> \<not> py_in ''<urlset'' sitemap_content)
      \<and> findall_page_href sitemap_content \<noteq> [])"

text \<open>
  What the \<^verbatim>\<open>try\<close> block of the loop over an index gets for one sub-sitemap (lines 270
  and 271), with \<open>n\<close> nested calls still allowed: the URLs, or \<open>None\<close> when
  \<^verbatim>\<open>fetch_sitemap\<close> or \<^verbatim>\<open>parse_sitemap\<close> raises.
\<close>

definition sub_sitemap :: "env \<Rightarrow> nat \<Rightarrow> string \<Rightarrow> string list option" where
  "sub_sitemap e n sitemap =
     (case fetch_sitemap e n sitemap False of
        (lg1, Inl sub_e) \<Rightarrow> None
      | (lg1, Inr sub_sitemap_content) \<Rightarrow>
          (case parse_sitemap e n sub_sitemap_content of
             (lg2, Inl sub_e) \<Rightarrow> None
           | (lg2, Inr sub_urls) \<Rightarrow> Some sub_urls))"

text \<open>
  What the inner \<^verbatim>\<open>try\<close> block of the loop of \<^verbatim>\<open>check_sitemaps\<close> gets for one URL (lines
  323 and 324): the exception of \<^verbatim>\<open>fetch_sitemap\<close> or \<^verbatim>\<open>parse_sitemap\<close>, or the URLs.
\<close>

definition fetch_and_parse :: "env \<Rightarrow> string \<Rightarrow> exn + string list" where
  "fetch_and_parse e url =
     (case fetch_sitemap e (recursion_limit e) url False of
        (lg1, Inl fetch_err) \<Rightarrow> Inl fetch_err
      | (lg1, Inr sitemap_content) \<Rightarrow>
          (case parse_sitemap e (recursion_limit e) sitemap_content of
             (lg2, Inl fetch_err) \<Rightarrow> Inl fetch_err
           | (lg2, Inr current_urls) \<Rightarrow> Inr current_urls))"

text \<open>
  Every exception that the libraries raise has a message: those of \<^verbatim>\<open>requests.get\<close>,
  \<^verbatim>\<open>raise_for_status\<close>, \<^verbatim>\<open>urlparse\<close>, \<^verbatim>\<open>urljoin\<close> and \<^verbatim>\<open>etree.fromstring\<close>.
\<close>

definition raises_with_message :: "env \<Rightarrow> bool" where
  "raises_with_message e =
     ((\<forall>u ex. requests_get e u = Inl ex \<longrightarrow> str_exn ex \<noteq> []) \<and>
      (\<forall>u resp. requests_get e u = Inr resp \<longrightarrow> http_error resp \<noteq> Some []) \<and>
      (\<forall>u ex. urlparse e u = Inl ex \<longrightarrow> str_exn ex \<noteq> []) \<and>
      (\<forall>b u ex. urljoin e b u = Inl ex \<longrightarrow> str_exn ex \<noteq> []) \<and>
      (\<forall>c ex. etree_fromstring e c = Inl ex \<longrightarrow> str_exn ex \<noteq> []))"

text \<open>
  The upstream content of \<open>url\<close> is unchanged: the dictionary has a list for \<open>url\<close>, fetch and
  parse succeed, and the set of the parsed URLs is the set of that list.
\<close>

definition unchanged :: "env \<Rightarrow> (string \<times> pyval) list \<Rightarrow> string \<Rightarrow> bool" where
  "unchanged e kv url =
     (case map_of kv url of
        Some (PList stored) \<Rightarrow>
          (case fetch_and_parse e url of
             Inr current_urls \<Rightarrow> set stored = PStr ` set current_urls
           | Inl ex \<Rightarrow> False)
      | _ \<Rightarrow> False)"

text \<open>The number of redirects from a \<^verbatim>\<open>robots.txt\<close> that a log shows.\<close>

definition robots_redirects :: "log_entry list \<Rightarrow> nat" where
  "robots_redirects lg =
     length (filter (\<lambda>r. r = (INFO, ''Following sitemap from robots.txt (one level only)'', []))
               lg)"

text \<open>
  The specification of the fallback of \<^verbatim>\<open>parse_sitemap\<close>, in its own words: the URLs of the
  spans \<^verbatim>\<open><loc>...</loc>\<close> of the content that hold an http(s) URL, which is \<^verbatim>\<open>http://\<close> or
  \<^verbatim>\<open>https://\<close> followed by at least one character, with no \<^verbatim>\<open><\<close> in it.
\<close>

definition http_url :: "string \<Rightarrow> bool" where
  "http_url url =
     ((\<exists>rest. rest \<noteq> [] \<and> (url = ''http://'' @ rest \<or> url = ''https://'' @ rest))
      \<and> CHR ''<'' \<notin> set url)"

definition loc_spans :: "string \<Rightarrow> string set" where
  "loc_spans content =
     {url. http_url url \<and> (\<exists>pre post. content = pre @ ''<loc>'' @ url @ ''</loc>'' @ post)}"

section \<open>Example environments\<close>

text \<open>
  In an example environment each library function is a table of the calls that the
  examples make, with what the library returns there, and fails on every other call.
  \<^verbatim>\<open>urlparse\<close> and \<^verbatim>\<open>urljoin\<close> are given for the texts of the examples: \<^verbatim>\<open>http://host/path\<close>;
  a text that starts with \<^verbatim>\<open>//\<close> and has a \<^verbatim>\<open>[\<close> without \<^verbatim>\<open>]\<close> in its host, on which
  \<^verbatim>\<open>urllib.parse\<close> raises \<^verbatim>\<open>ValueError\<close>; and a text that is no URL, which has neither scheme
  nor host. \<^verbatim>\<open>urljoin\<close> joins an origin and a path that starts with one \<^verbatim>\<open>/\<close>.
\<close>

definition bad_host :: "string \<Rightarrow> bool" where
  "bad_host u =
     (prefix ''//'' u \<and>
      (let host = takeWhile (\<lambda>c. c \<notin> set ''/?#'') (drop 2 u)
       in (CHR ''['' \<in> set host \<and> CHR '']'' \<notin> set host)
          \<or> (CHR '']'' \<in> set host \<and> CHR ''['' \<notin> set host)))"

definition example_urlparse :: "string \<Rightarrow> exn + parse_result" where
  "example_urlparse u =
     (if bad_host u then Inl (Exn ValueError ''Invalid IPv6 URL'')
      else if prefix ''http://'' u
      then Inr \<lparr>scheme = ''http'', netloc = takeWhile (\<lambda>c. c \<notin> set ''/?#'') (drop 7 u)\<rparr>
      else if prefix ''https://'' u
      then Inr \<lparr>scheme = ''https'', netloc = takeWhile (\<lambda>c. c \<notin> set ''/?#'') (drop 8 u)\<rparr>
      else Inr \<lparr>scheme = [], netloc = []\<rparr>)"

definition example_urljoin :: "string \<Rightarrow> string \<Rightarrow> exn + string" where
  "example_urljoin b u =
     (if bad_host u then Inl (Exn ValueError ''Invalid IPv6 URL'') else Inr (b @ u))"

definition doc_compact :: string where
  \<open>doc_compact = ''{"u": ["a"]}''\<close>

definition doc_indented :: string where
  \<open>doc_indented = ''{\<newline>  "u": [\<newline>    "a"\<newline>  ]\<newline>}''\<close>

definition offline_env :: env where
  "offline_env =
     \<lparr>requests_get = (\<lambda>u. Inl (Exn RequestException ''Connection refused'')),
      urlparse = example_urlparse,
      urljoin = example_urljoin,
      etree_fromstring = (\<lambda>s. Inl (Exn XMLSyntaxError ''not well-formed'')),
      json_load = (\<lambda>s.
        if s = ''{}'' then Inr (PDict [])
        else if s = doc_compact \<or> s = doc_indented then Inr (PDict [(''u'', PList [PStr ''a''])])
        else Inl (Exn JSONDecodeError ''Expecting value'')),
      json_dumps = (\<lambda>i v.
        if v = PDict [] then Inr ''{}''
        else if i = 2 \<and> v = PDict [(''u'', PList [PStr ''a''])] then Inr doc_indented
        else Inl (Exn TypeError ''Object is not JSON serializable'')),
      open_read_error = (\<lambda>p. None),
      open_write_error = (\<lambda>p. None),
      replace_error = (\<lambda>p. None),
      recursion_limit = 5\<rparr>"

definition corrupt_disk :: fs where
  "corrupt_disk = (\<lambda>p. None)(KNOWN_URLS_FILE \<mapsto> ''{bad'')"

definition old_disk :: fs where
  "old_disk = (\<lambda>p. None)(KNOWN_URLS_FILE \<mapsto> doc_compact)"

text \<open>
  A site \<^verbatim>\<open>a.t\<close> with two sitemaps of one URL each, an index of the two, an index of the
  first and of a sitemap that is gone, and a page.
\<close>

definition sitemap_1 :: string where
  \<open>sitemap_1 = ''<urlset xmlns="http://www.sitemaps.org/schemas/sitemap/0.9"><url><loc>http://a.t/1</loc></url></urlset>''\<close>

definition sitemap_2 :: string where
  \<open>sitemap_2 = ''<urlset xmlns="http://www.sitemaps.org/schemas/sitemap/0.9"><url><loc>http://a.t/2</loc></url></urlset>''\<close>

definition index_12 :: string where
  \<open>index_12 = ''<sitemapindex xmlns="http://www.sitemaps.org/schemas/sitemap/0.9"><sitemap><loc>http://a.t/s1.xml</loc></sitemap><sitemap><loc>http://a.t/s2.xml</loc></sitemap></sitemapindex>''\<close>

definition index_gone :: string where
  \<open>index_gone = ''<sitemapindex xmlns="http://www.sitemaps.org/schemas/sitemap/0.9"><sitemap><loc>http://a.t/gone.xml</loc></sitemap><sitemap><loc>http://a.t/s2.xml</loc></sitemap></sitemapindex>''\<close>

definition page :: string where
  \<open>page = ''<html><a href='/a/'><a href='http://b.t/c.html'><a href='d/e.php'></html>''\<close>



definition urlset_root :: "string list \<Rightarrow> element" where
  "urlset_root locs =
     \<lparr>tag = ''{http://www.sitemaps.org/schemas/sitemap/0.9}urlset'',
      xpath = (\<lambda>q. if q = ''//sm:url/sm:loc/text()'' then locs else [])\<rparr>"

definition index_root :: "string list \<Rightarrow> element" where
  "index_root locs =
     \<lparr>tag = ''{http://www.sitemaps.org/schemas/sitemap/0.9}sitemapindex'',
      xpath = (\<lambda>q. if q = ''//sm:sitemap/sm:loc/text()'' then locs else [])\<rparr>"

definition ok_response :: "string \<Rightarrow> string \<Rightarrow> exn + response" where
  "ok_response ctype body =
     Inr \<lparr>http_error = None, content_type = Some ctype, resp_text = body\<rparr>"

definition store_1 :: string where
  \<open>store_1 = ''{\<newline>  "http://a.t/s1.xml": [\<newline>    "http://a.t/1"\<newline>  ]\<newline>}''\<close>

definition site_env :: env where
  "site_env = offline_env
     \<lparr>requests_get := (\<lambda>u.
        if u = ''http://a.t/s1.xml'' then ok_response ''application/xml'' sitemap_1
        else if u = ''http://a.t/s2.xml'' then ok_response ''application/xml'' sitemap_2
        else if u = ''http://a.t/gone.xml'' then
          Inr \<lparr>http_error = Some ''404 Client Error: Not Found for url: http://a.t/gone.xml'',
               content_type = Some ''text/html'', resp_text = ''Not Found''\<rparr>
        else Inl (Exn RequestException ''Connection refused'')),
      etree_fromstring := (\<lambda>s.
        if s = sitemap_1 then Inr (urlset_root [''http://a.t/1''])
        else if s = sitemap_2 then Inr (urlset_root [''http://a.t/2''])
        else if s = index_12 then Inr (index_root [''http://a.t/s1.xml'', ''http://a.t/s2.xml''])
        else if s = index_gone then Inr (index_root [''http://a.t/gone.xml'', ''http://a.t/s2.xml''])
        else Inl (Exn XMLSyntaxError ''not well-formed'')),
      json_load := (\<lambda>s.
        if s = ''{}'' then Inr (PDict [])
        else if s = store_1
        then Inr (PDict [(''http://a.t/s1.xml'', PList [PStr ''http://a.t/1''])])
        else Inl (Exn JSONDecodeError ''Expecting value'')),
      json_dumps := (\<lambda>i v.
        if v = PDict [] then Inr ''{}''
        else if i = 2 \<and> v = PDict [(''http://a.t/s1.xml'', PList [PStr ''http://a.t/1''])]
        then Inr store_1
        else Inl (Exn TypeError ''Object is not JSON serializable''))\<rparr>"

definition empty_disk :: fs where
  "empty_disk = (\<lambda>p. None)"

definition disk_1 :: fs where
  "disk_1 = (\<lambda>p. None)(KNOWN_URLS_FILE \<mapsto> store_1)"

text \<open>
  A site whose \<^verbatim>\<open>robots.txt\<close> names a sitemap that is an HTML page; the page links to a
  second address with \<^verbatim>\<open>robots.txt\<close> in it, which names another sitemap.
\<close>

definition chain_env :: env where
  "chain_env = offline_env
     \<lparr>requests_get := (\<lambda>u.
        if u = ''http://a.t/robots.txt''
          then ok_response ''text/plain'' ''Sitemap: http://a.t/s.xml''
        else if u = ''http://a.t/s.xml''
          then ok_response ''text/html'' ''<html><a href='/robots.txt?sitemap.xml'></html>''
        else if u = ''http://a.t/robots.txt?sitemap.xml''
          then ok_response ''text/plain'' ''Sitemap: http://a.t/t.xml''
        else if u = ''http://a.t/t.xml'' then ok_response ''application/xml'' sitemap_1
        else Inl (Exn RequestException ''Connection refused''))\<rparr>"

section \<open>Properties of the store\<close>

lemma load_known_urls_body_missing:
  "d KNOWN_URLS_FILE = None \<Longrightarrow> load_known_urls_body e d = (d, [], Inr (PDict []))"
  by (simp add: load_known_urls_body_def path_exists_def)

lemma load_known_urls_returns:
  "\<exists>d1 lg v. load_known_urls e d = (d1, lg, Inr v)"
proof -
  obtain d1 lg r where b: "load_known_urls_body e d = (d1, lg, r)"
    by (cases "load_known_urls_body e d") auto
  show ?thesis
    by (cases r) (simp_all add: load_known_urls_def b)
qed

lemma load_known_urls_corrupt:
  assumes "d KNOWN_URLS_FILE = Some content"
      and "open_read_error e KNOWN_URLS_FILE = None"
      and "json_load e content = Inl (Exn JSONDecodeError m)"
  shows "load_known_urls e d =
           (case open_write_error e (KNOWN_URLS_FILE @ ''.bak'') of
              None \<Rightarrow>
                (d(KNOWN_URLS_FILE @ ''.bak'' \<mapsto> content),
                 [(ERROR, ''Invalid JSON in {}: {}'', [S KNOWN_URLS_FILE, S m]),
                  (INFO, ''Creating backup of corrupted file as {}'',
                     [S (KNOWN_URLS_FILE @ ''.bak'')])],
                 Inr (PDict []))
            | Some w \<Rightarrow>
                (d,
                 [(ERROR, ''Invalid JSON in {}: {}'', [S KNOWN_URLS_FILE, S m]),
                  (INFO, ''Creating backup of corrupted file as {}'',
                     [S (KNOWN_URLS_FILE @ ''.bak'')]),
                  (ERROR, ''Failed to create backup: {}'', [S w])],
                 Inr (PDict [])))"
  using assms
  by (simp add: load_known_urls_def load_known_urls_body_def path_exists_def open_r_def
      open_w_def file_write_def KNOWN_URLS_FILE_def Let_def split: option.splits)


text \<open>
  Claim C5. \<^verbatim>\<open>load_known_urls\<close> never raises: it always returns a value. When the store
  file is missing it returns the empty mapping and leaves the disk as it is. When the file
  can be read and \<^verbatim>\<open>json.load\<close> rejects its content with \<^verbatim>\<open>JSONDecodeError\<close>, it returns the
  empty mapping, and before that either has copied the content to \<^verbatim>\<open>known_urls.json.bak\<close>
  or, when the backup file cannot be opened, has left the disk as it is and logged
  \<^verbatim>\<open>Failed to create backup\<close>.
\<close>

theorem load_known_urls_never_raises:
  "(\<exists>d1 lg v. load_known_urls e d = (d1, lg, Inr v)) \<and>
   (d KNOWN_URLS_FILE = None \<longrightarrow> load_known_urls e d = (d, [], Inr (PDict []))) \<and>
   (\<forall>content m.
      d KNOWN_URLS_FILE = Some content \<and> open_read_error e KNOWN_URLS_FILE = None \<and>
      json_load e content = Inl (Exn JSONDecodeError m) \<longrightarrow>
      (\<exists>d1 lg. load_known_urls e d = (d1, lg, Inr (PDict [])) \<and>
         (case open_write_error e (KNOWN_URLS_FILE @ ''.bak'') of
            None \<Rightarrow> d1 = d(KNOWN_URLS_FILE @ ''.bak'' \<mapsto> content)
          | Some w \<Rightarrow> d1 = d \<and> (ERROR, ''Failed to create backup: {}'', [S w]) \<in> set lg)))"
proof (intro conjI allI impI)
  show "\<exists>d1 lg v. load_known_urls e d = (d1, lg, Inr v)"
    by (rule load_known_urls_returns)
next
  assume "d KNOWN_URLS_FILE = None"
  then show "load_known_urls e d = (d, [], Inr (PDict []))"
    by (simp add: load_known_urls_def load_known_urls_body_missing)
next
  fix content m
  assume h: "d KNOWN_URLS_FILE = Some content \<and> open_read_error e KNOWN_URLS_FILE = None \<and>
      json_load e content = Inl (Exn JSONDecodeError m)"
  then have "load_known_urls e d =
           (case open_write_error e (KNOWN_URLS_FILE @ ''.bak'') of
              None \<Rightarrow>
                (d(KNOWN_URLS_FILE @ ''.bak'' \<mapsto> content),
                 [(ERROR, ''Invalid JSON in {}: {}'', [S KNOWN_URLS_FILE, S m]),
                  (INFO, ''Creating backup of corrupted file as {}'',
                     [S (KNOWN_URLS_FILE @ ''.bak'')])],
                 Inr (PDict []))
            | Some w \<Rightarrow>
                (d,
                 [(ERROR, ''Invalid JSON in {}: {}'', [S KNOWN_URLS_FILE, S m]),
                  (INFO, ''Creating backup of corrupted file as {}'',
                     [S (KNOWN_URLS_FILE @ ''.bak'')]),
                  (ERROR, ''Failed to create backup: {}'', [S w])],
                 Inr (PDict [])))"
    by (intro load_known_urls_corrupt) simp_all
  then show "\<exists>d1 lg. load_known_urls e d = (d1, lg, Inr (PDict [])) \<and>
         (case open_write_error e (KNOWN_URLS_FILE @ ''.bak'') of
            None \<Rightarrow> d1 = d(KNOWN_URLS_FILE @ ''.bak'' \<mapsto> content)
          | Some w \<Rightarrow> d1 = d \<and> (ERROR, ''Failed to create backup: {}'', [S w]) \<in> set lg)"
    by (cases "open_write_error e (KNOWN_URLS_FILE @ ''.bak'')") simp_all
qed

theorem load_known_urls_never_raises_witness:
  "corrupt_disk KNOWN_URLS_FILE = Some ''{bad'' \<and>
   open_read_error offline_env KNOWN_URLS_FILE = None \<and>
   json_load offline_env ''{bad'' = Inl (Exn JSONDecodeError ''Expecting value'') \<and>
   open_write_error offline_env (KNOWN_URLS_FILE @ ''.bak'') = None \<and>
   (\<exists>lg. load_known_urls offline_env corrupt_disk =
      (corrupt_disk(KNOWN_URLS_FILE @ ''.bak'' \<mapsto> ''{bad''), lg, Inr (PDict [])))"
proof -
  have h: "corrupt_disk KNOWN_URLS_FILE = Some ''{bad'' \<and>
      open_read_error offline_env KNOWN_URLS_FILE = None \<and>
      json_load offline_env ''{bad'' = Inl (Exn JSONDecodeError ''Expecting value'')"
    by (simp add: corrupt_disk_def offline_env_def doc_compact_def doc_indented_def)
  have w: "open_write_error offline_env (KNOWN_URLS_FILE @ ''.bak'') = None"
    by (simp add: offline_env_def)
  from load_known_urls_never_raises [of offline_env corrupt_disk] h
  have "\<exists>d1 lg. load_known_urls offline_env corrupt_disk = (d1, lg, Inr (PDict [])) \<and>
         (case open_write_error offline_env (KNOWN_URLS_FILE @ ''.bak'') of
            None \<Rightarrow> d1 = corrupt_disk(KNOWN_URLS_FILE @ ''.bak'' \<mapsto> ''{bad'')
          | Some w \<Rightarrow> d1 = corrupt_disk \<and> (ERROR, ''Failed to create backup: {}'', [S w]) \<in> set lg)"
    by blast
  with h w show ?thesis by auto
qed

lemma not_dict_saves_as_empty:
  "\<not> is_dict v \<Longrightarrow>
   save_known_urls e d v =
     (case save_known_urls e d (PDict []) of
        (d1, lg, r) \<Rightarrow>
          (d1, (ERROR, ''Expected a dictionary for known_urls, got {}'', [S (type_repr v)]) # lg, r))"
  by (simp add: save_known_urls_def Let_def split: sum.splits)

lemma save_known_urls_writes:
  assumes "is_dict v" "json_dumps e 2 v = Inr s"
      and "open_write_error e (KNOWN_URLS_FILE @ ''.tmp'') = None"
      and "replace_error e KNOWN_URLS_FILE = None"
  shows "save_known_urls e d v =
           ((d(KNOWN_URLS_FILE @ ''.tmp'' := None))(KNOWN_URLS_FILE \<mapsto> s), [], Inr ())"
  using assms
  by (simp add: save_known_urls_def Let_def open_w_def file_write_def os_replace_def
      KNOWN_URLS_FILE_def fun_upd_twist)


text \<open>
  Claim C10. For an argument that is not a dictionary, \<^verbatim>\<open>save_known_urls\<close> does what it
  does for the empty dictionary, after one more log record: nothing refuses the write.
  When the calls of the write succeed, the store file then holds the empty JSON object.
\<close>

theorem save_known_urls_not_dict:
  "\<not> is_dict v \<Longrightarrow>
   save_known_urls e d v =
     (case save_known_urls e d (PDict []) of
        (d1, lg, r) \<Rightarrow>
          (d1, (ERROR, ''Expected a dictionary for known_urls, got {}'', [S (type_repr v)]) # lg, r))
   \<and> (json_dumps e 2 (PDict []) = Inr ''{}'' \<and>
      open_write_error e (KNOWN_URLS_FILE @ ''.tmp'') = None \<and>
      replace_error e KNOWN_URLS_FILE = None \<longrightarrow>
      fst (save_known_urls e d v) KNOWN_URLS_FILE = Some ''{}'')"
proof (intro conjI impI)
  assume nd: "\<not> is_dict v"
  then show eq: "save_known_urls e d v =
     (case save_known_urls e d (PDict []) of
        (d1, lg, r) \<Rightarrow>
          (d1, (ERROR, ''Expected a dictionary for known_urls, got {}'', [S (type_repr v)]) # lg, r))"
    by (rule not_dict_saves_as_empty)
  assume io: "json_dumps e 2 (PDict []) = Inr ''{}'' \<and>
      open_write_error e (KNOWN_URLS_FILE @ ''.tmp'') = None \<and>
      replace_error e KNOWN_URLS_FILE = None"
  then have "save_known_urls e d (PDict []) =
      ((d(KNOWN_URLS_FILE @ ''.tmp'' := None))(KNOWN_URLS_FILE \<mapsto> ''{}''), [], Inr ())"
    by (intro save_known_urls_writes) simp_all
  with eq show "fst (save_known_urls e d v) KNOWN_URLS_FILE = Some ''{}''"
    by simp
qed

theorem save_known_urls_not_dict_witness:
  \<open>\<not> is_dict (PList [PStr ''a'']) \<and>
   json_dumps offline_env 2 (PDict []) = Inr ''{}'' \<and>
   open_write_error offline_env (KNOWN_URLS_FILE @ ''.tmp'') = None \<and>
   replace_error offline_env KNOWN_URLS_FILE = None \<and>
   old_disk KNOWN_URLS_FILE = Some doc_compact \<and>
   fst (save_known_urls offline_env old_disk (PList [PStr ''a''])) KNOWN_URLS_FILE = Some ''{}''\<close>
proof -
  have nd: "\<not> is_dict (PList [PStr ''a''])" by simp
  have io: "json_dumps offline_env 2 (PDict []) = Inr ''{}'' \<and>
      open_write_error offline_env (KNOWN_URLS_FILE @ ''.tmp'') = None \<and>
      replace_error offline_env KNOWN_URLS_FILE = None"
    by (simp add: offline_env_def)
  from save_known_urls_not_dict [OF nd, of offline_env old_disk] io
  have "fst (save_known_urls offline_env old_disk (PList [PStr ''a''])) KNOWN_URLS_FILE = Some ''{}''"
    by blast
  with nd io show ?thesis by (simp add: old_disk_def)
qed

lemma load_known_urls_valid:
  assumes "d KNOWN_URLS_FILE = Some content"
      and "open_read_error e KNOWN_URLS_FILE = None"
      and "json_load e content = Inr v"
  shows "load_known_urls e d = (d, [], Inr v)"
  using assms
  by (simp add: load_known_urls_def load_known_urls_body_def path_exists_def open_r_def)

lemma save_known_urls_store_file:
  assumes "is_dict v"
  shows "fst (save_known_urls e d v) KNOWN_URLS_FILE = d KNOWN_URLS_FILE \<or>
         (\<exists>s. json_dumps e 2 v = Inr s \<and> fst (save_known_urls e d v) KNOWN_URLS_FILE = Some s)"
  using assms
  by (auto simp add: save_known_urls_def Let_def open_w_def file_write_def os_replace_def
      KNOWN_URLS_FILE_def split: sum.splits option.splits)

text \<open>
  Claim C7. Let the store file hold a JSON object and be readable, and let \<^verbatim>\<open>json.load\<close>
  read back what \<^verbatim>\<open>json.dumps\<close> prints for that object. Then \<^verbatim>\<open>load_known_urls\<close> returns
  the object, and after \<^verbatim>\<open>save_known_urls\<close> of it the store file still holds a text that
  \<^verbatim>\<open>json.load\<close> reads as the same object, keys and arrays in the same order.
\<close>

theorem save_load_round_trip:
  assumes "d KNOWN_URLS_FILE = Some content"
      and "open_read_error e KNOWN_URLS_FILE = None"
      and "json_load e content = Inr (PDict kv)"
      and "\<forall>s. json_dumps e 2 (PDict kv) = Inr s \<longrightarrow> json_load e s = Inr (PDict kv)"
  shows "\<exists>d1 lg1 d2 lg2 r content'.
           load_known_urls e d = (d1, lg1, Inr (PDict kv)) \<and>
           save_known_urls e d1 (PDict kv) = (d2, lg2, r) \<and>
           d2 KNOWN_URLS_FILE = Some content' \<and>
           json_load e content' = Inr (PDict kv)"
proof -
  have l: "load_known_urls e d = (d, [], Inr (PDict kv))"
    using assms(1-3) by (rule load_known_urls_valid)
  obtain d2 lg2 r where s: "save_known_urls e d (PDict kv) = (d2, lg2, r)"
    by (cases "save_known_urls e d (PDict kv)") auto
  have "d2 KNOWN_URLS_FILE = d KNOWN_URLS_FILE \<or>
         (\<exists>s. json_dumps e 2 (PDict kv) = Inr s \<and> d2 KNOWN_URLS_FILE = Some s)"
    using save_known_urls_store_file [of "PDict kv" e d] s by simp
  then have "\<exists>content'. d2 KNOWN_URLS_FILE = Some content' \<and> json_load e content' = Inr (PDict kv)"
    using assms by auto
  with l s show ?thesis by blast
qed


theorem save_load_round_trip_witness:
  "old_disk KNOWN_URLS_FILE = Some doc_compact \<and>
   open_read_error offline_env KNOWN_URLS_FILE = None \<and>
   json_load offline_env doc_compact = Inr (PDict [(''u'', PList [PStr ''a''])]) \<and>
   json_dumps offline_env 2 (PDict [(''u'', PList [PStr ''a''])]) = Inr doc_indented \<and>
   json_load offline_env doc_indented = Inr (PDict [(''u'', PList [PStr ''a''])]) \<and>
   (\<exists>d1 lg1 d2 lg2 r content'.
      load_known_urls offline_env old_disk = (d1, lg1, Inr (PDict [(''u'', PList [PStr ''a''])])) \<and>
      save_known_urls offline_env d1 (PDict [(''u'', PList [PStr ''a''])]) = (d2, lg2, r) \<and>
      d2 KNOWN_URLS_FILE = Some content' \<and>
      json_load offline_env content' = Inr (PDict [(''u'', PList [PStr ''a''])]))"
proof -
  have h1: "old_disk KNOWN_URLS_FILE = Some doc_compact"
    by (simp add: old_disk_def)
  have h2: "open_read_error offline_env KNOWN_URLS_FILE = None"
    by (simp add: offline_env_def)
  have h3: "json_load offline_env doc_compact = Inr (PDict [(''u'', PList [PStr ''a''])])"
    by (simp add: offline_env_def doc_compact_def)
  have h4: "\<forall>s. json_dumps offline_env 2 (PDict [(''u'', PList [PStr ''a''])]) = Inr s \<longrightarrow>
        json_load offline_env s = Inr (PDict [(''u'', PList [PStr ''a''])])"
    by (simp add: offline_env_def doc_indented_def)
  have "old_disk KNOWN_URLS_FILE = Some doc_compact \<and>
      open_read_error offline_env KNOWN_URLS_FILE = None \<and>
      json_load offline_env doc_compact = Inr (PDict [(''u'', PList [PStr ''a''])]) \<and>
      (\<exists>d1 lg1 d2 lg2 r content'.
         load_known_urls offline_env old_disk =
           (d1, lg1, Inr (PDict [(''u'', PList [PStr ''a''])])) \<and>
         save_known_urls offline_env d1 (PDict [(''u'', PList [PStr ''a''])]) = (d2, lg2, r) \<and>
         d2 KNOWN_URLS_FILE = Some content' \<and>
         json_load offline_env content' = Inr (PDict [(''u'', PList [PStr ''a''])]))"
    using save_load_round_trip [where d = old_disk and e = offline_env and content = doc_compact,
      OF h1 h2 h3 h4] h1 h2 h3
    by blast
  moreover
  have "json_dumps offline_env 2 (PDict [(''u'', PList [PStr ''a''])]) = Inr doc_indented \<and>
      json_load offline_env doc_indented = Inr (PDict [(''u'', PList [PStr ''a''])])"
    by (simp add: offline_env_def doc_indented_def)
  ultimately show ?thesis
    by blast
qed

section \<open>Properties of the pattern of the fallback\<close>

lemma match_scheme_SomeD:
  "match_scheme t = Some k \<Longrightarrow>
   \<exists>sch. take k t = sch \<and> length sch = k \<and> 7 \<le> k \<and> CHR ''<'' \<notin> set sch"
  by (auto simp: match_scheme_def prefix_def split: if_splits)

lemma match_loc_SomeD:
  assumes "match_loc s = Some (g, kk)"
  shows "\<exists>a rest. s = a @ ''</loc>'' @ rest \<and> kk = length a + 6 \<and> 13 \<le> length a \<and>
           (\<forall>i. 1 \<le> i \<and> i < length a \<longrightarrow> a ! i \<noteq> CHR ''<'')"
proof -
  from assms have p: "prefix ''<loc>'' s"
    by (auto simp: match_loc_def split: if_splits)
  then obtain t where s: "s = ''<loc>'' @ t"
    by (auto simp: prefix_def)
  have r: "drop 5 s = t"
    unfolding s by simp
  from assms p obtain k where ms: "match_scheme t = Some k"
    and bne: "takeWhile (\<lambda>c. c \<noteq> CHR ''<'') (drop k t) \<noteq> []"
    and cl: "prefix ''</loc>'' (drop (k + length (takeWhile (\<lambda>c. c \<noteq> CHR ''<'') (drop k t))) t)"
    and kk: "kk = 5 + k + length (takeWhile (\<lambda>c. c \<noteq> CHR ''<'') (drop k t)) + 6"
    unfolding match_loc_def r
    by (auto simp: Let_def split: if_splits option.splits)
  define b where "b = takeWhile (\<lambda>c. c \<noteq> CHR ''<'') (drop k t)"
  from match_scheme_SomeD [OF ms] have lk: "length (take k t) = k" and k7: "7 \<le> k"
    and ns: "CHR ''<'' \<notin> set (take k t)"
    by auto
  from cl obtain rest where c: "drop (k + length b) t = ''</loc>'' @ rest"
    unfolding b_def prefix_def by blast
  have "b = take (length b) (drop k t)"
    unfolding b_def by (rule takeWhile_eq_take)
  then have d: "b @ drop (length b) (drop k t) = drop k t"
    by (metis append_take_drop_id)
  have e: "drop (length b) (drop k t) = ''</loc>'' @ rest"
    using c by (simp only: drop_drop add.commute)
  have "take k t @ (b @ drop (length b) (drop k t)) = t"
    by (simp only: d append_take_drop_id)
  then have t: "take k t @ b @ ''</loc>'' @ rest = t"
    by (simp only: e)
  have nb: "CHR ''<'' \<notin> set b"
    unfolding b_def using set_takeWhileD by fastforce
  have bne': "b \<noteq> []"
    using bne unfolding b_def .
  define rest0 where "rest0 = ''loc>'' @ take k t @ b"
  define a where "a = CHR ''<'' # rest0"
  have "a @ ''</loc>'' @ rest = ''<loc>'' @ (take k t @ b @ ''</loc>'' @ rest)"
    unfolding a_def rest0_def by simp
  then have sa: "s = a @ ''</loc>'' @ rest"
    unfolding t s by simp
  have la: "length a = 5 + k + length b"
    unfolding a_def rest0_def using lk by simp
  have kka: "kk = length a + 6"
    unfolding kk la b_def by simp
  have "0 < length b"
    using bne' by simp
  then have l13: "13 \<le> length a"
    using la k7 by linarith
  have n0: "CHR ''<'' \<notin> set rest0"
    unfolding rest0_def using ns nb by simp
  have inner: "\<forall>i. 1 \<le> i \<and> i < length a \<longrightarrow> a ! i \<noteq> CHR ''<''"
  proof (intro allI impI)
    fix i assume i: "1 \<le> i \<and> i < length a"
    then obtain j where j: "i = Suc j" and jl: "j < length rest0"
      unfolding a_def by (cases i) auto
    have "a ! i = rest0 ! j"
      unfolding a_def j by simp
    moreover have "rest0 ! j \<in> set rest0"
      using jl by (rule nth_mem)
    ultimately show "a ! i \<noteq> CHR ''<''"
      using n0 by metis
  qed
  from sa kka l13 inner show ?thesis by blast
qed


lemma match_scheme_append:
  "match_scheme url = Some k \<Longrightarrow> match_scheme (url @ x) = Some k"
  by (auto simp: match_scheme_def prefix_def split: if_splits)

lemma match_loc_span:
  assumes "match_scheme url = Some k" and "k < length url" and "CHR ''<'' \<notin> set url"
  shows "match_loc (''<loc>'' @ url @ ''</loc>'' @ post) = Some (url, length url + 11)"
proof -
  define x where "x = ''</loc>'' @ post"
  have ms: "match_scheme (url @ x) = Some k"
    using assms(1) by (rule match_scheme_append)
  have dr: "drop k (url @ x) = drop k url @ x"
    using assms(2) by simp
  have "\<forall>c \<in> set (drop k url). c \<noteq> CHR ''<''"
    using assms(3) by (metis in_set_dropD)
  then have tw: "takeWhile (\<lambda>c. c \<noteq> CHR ''<'') (drop k url @ x) = drop k url"
    unfolding x_def by (simp add: takeWhile_append2)
  have ne: "drop k url \<noteq> []"
    using assms(2) by simp
  have len: "k + (length url - k) = length url"
    using assms(2) by simp
  have px: "prefix ''</loc>'' x"
    unfolding x_def by simp
  have kz: "k - length url = 0"
    using assms(2) by simp
  have "match_loc (''<loc>'' @ url @ x) = Some (url, length url + 11)"
    unfolding match_loc_def
    using assms(2) by (simp add: ms kz tw ne px Let_def)
  then show ?thesis
    unfolding x_def .
qed

lemma match_loc_before_span:
  assumes "match_loc (pre @ ''<loc>'' @ u) = Some (g, kk)" and "pre \<noteq> []"
  shows "kk \<le> length pre"
proof -
  let ?s = "pre @ ''<loc>'' @ u"
  from match_loc_SomeD [OF assms(1)]
  obtain a rest where sa: "?s = a @ ''</loc>'' @ rest" and kk: "kk = length a + 6"
    and la: "13 \<le> length a"
    and inner: "\<forall>i. 1 \<le> i \<and> i < length a \<longrightarrow> a ! i \<noteq> CHR ''<''"
    by blast
  let ?n = "length pre"
  have n1: "1 \<le> ?n"
    using assms(2) by (cases pre) auto
  have s0: "?s ! ?n = CHR ''<''"
    by (simp add: nth_append)
  have s1: "?s ! (?n + 1) = CHR ''l''"
    by (simp add: nth_append)
  show ?thesis
  proof (rule ccontr)
    assume "\<not> kk \<le> ?n"
    then have lt: "?n < length a + 6"
      using kk by simp
    consider (in_a) "?n < length a" | (at) "?n = length a"
      | (inside) "length a < ?n" "?n < length a + 6"
      using lt by linarith
    then show False
    proof cases
      case in_a
      then have "?s ! ?n = a ! ?n"
        unfolding sa by (simp add: nth_append)
      with s0 inner n1 in_a show False by metis
    next
      case at
      have "?s ! (?n + 1) = (''</loc>'' @ rest) ! 1"
        unfolding sa at by (simp add: nth_append)
      then have "?s ! (?n + 1) = CHR ''/''"
        by simp
      with s1 show False by simp
    next
      case inside
      then obtain j where j: "?n = length a + j" and j1: "1 \<le> j" and j6: "j < 6"
        by (metis add_diff_inverse_nat less_diff_conv2 less_imp_le_nat not_less
            One_nat_def Suc_leI zero_less_diff nat_add_left_cancel_less add.commute)
      have "?s ! ?n = (''</loc>'' @ rest) ! j"
        unfolding sa j by (simp add: nth_append)
      moreover have "(''</loc>'' @ rest) ! j \<noteq> CHR ''<''"
        using j1 j6 by (cases j rule: nat.exhaust)
          (auto simp: nth_Cons' numeral_eq_Suc less_Suc_eq)
      ultimately show False
        using s0 by simp
    qed
  qed
qed


lemma findall_loc_embedded:
  assumes "match_scheme url = Some k" and "k < length url" and "CHR ''<'' \<notin> set url"
  shows "url \<in> set (findall_loc (pre @ ''<loc>'' @ url @ ''</loc>'' @ post))"
proof (induction pre rule: length_induct)
  case (1 pre)
  let ?u = "url @ ''</loc>'' @ post"
  show ?case
  proof (cases pre)
    case Nil
    have "match_loc (''<loc>'' @ ?u) = Some (url, length url + 11)"
      using assms by (rule match_loc_span)
    then have "findall match_loc (CHR ''<'' # ''loc>'' @ ?u) =
        url # findall match_loc (drop (length url + 11 - 1) (''loc>'' @ ?u))"
      by (simp del: match_loc_span)
    with Nil show ?thesis
      by (simp add: findall_loc_def)
  next
    case (Cons c cs)
    show ?thesis
    proof (cases "match_loc (pre @ ''<loc>'' @ ?u)")
      case None
      have "url \<in> set (findall_loc (cs @ ''<loc>'' @ ?u))"
        using 1 Cons by simp
      with None Cons show ?thesis
        by (simp add: findall_loc_def)
    next
      case (Some m)
      obtain g kk where m: "m = (g, kk)" by (cases m)
      have "pre \<noteq> []" using Cons by simp
      from match_loc_before_span [OF Some [unfolded m] this]
      have kk: "kk \<le> length pre" .
      then have d: "drop (kk - 1) (cs @ ''<loc>'' @ ?u) = drop (kk - 1) cs @ ''<loc>'' @ ?u"
        using Cons by simp
      have "length (drop (kk - 1) cs) < length pre"
        using Cons by simp
      with 1 have "url \<in> set (findall_loc (drop (kk - 1) cs @ ''<loc>'' @ ?u))"
        by blast
      then have "url \<in> set (findall match_loc (drop (kk - 1) (cs @ ''<loc>'' @ ?u)))"
        unfolding d findall_loc_def .
      moreover have "findall match_loc (pre @ ''<loc>'' @ ?u) =
          g # findall match_loc (drop (kk - 1) (cs @ ''<loc>'' @ ?u))"
        using Some m Cons by simp
      ultimately show ?thesis
        by (simp add: findall_loc_def)
    qed
  qed
qed


lemma prefix_take_ge: "prefix p t \<Longrightarrow> length p \<le> m \<Longrightarrow> prefix p (take m t)"
  by (auto simp: prefix_def)

lemma prefix_take_D: "prefix p (take m t) \<Longrightarrow> prefix p t"
  by (meson prefix_order.trans take_is_prefix)

lemma match_scheme_take:
  assumes "match_scheme t = Some k" and "k \<le> m"
  shows "match_scheme (take m t) = Some k"
proof (cases "prefix ''https://'' t")
  case True
  with assms have k: "k = 8"
    by (simp add: match_scheme_def)
  have "prefix ''https://'' (take m t)"
    using True assms(2) k by (intro prefix_take_ge) simp_all
  with k show ?thesis
    by (simp add: match_scheme_def)
next
  case False
  with assms have k: "k = 7" and h: "prefix ''http://'' t"
    by (auto simp: match_scheme_def split: if_splits)
  have a: "prefix ''http://'' (take m t)"
    using h assms(2) k by (intro prefix_take_ge) simp_all
  have b: "\<not> prefix ''https://'' (take m t)"
    using False prefix_take_D by blast
  from a b k show ?thesis
    by (simp add: match_scheme_def)
qed

lemma match_loc_groupD:
  assumes "match_loc s = Some (g, kk)"
  shows "\<exists>k rest. s = ''<loc>'' @ g @ ''</loc>'' @ rest \<and> kk = length g + 11 \<and>
           match_scheme g = Some k \<and> k < length g \<and> CHR ''<'' \<notin> set g"
proof -
  from assms have p: "prefix ''<loc>'' s"
    by (auto simp: match_loc_def split: if_splits)
  then obtain t where s: "s = ''<loc>'' @ t"
    by (auto simp: prefix_def)
  have r: "drop 5 s = t"
    unfolding s by simp
  from assms p obtain k where ms: "match_scheme t = Some k"
    and bne: "takeWhile (\<lambda>c. c \<noteq> CHR ''<'') (drop k t) \<noteq> []"
    and cl: "prefix ''</loc>'' (drop (k + length (takeWhile (\<lambda>c. c \<noteq> CHR ''<'') (drop k t))) t)"
    and g: "g = take (k + length (takeWhile (\<lambda>c. c \<noteq> CHR ''<'') (drop k t))) t"
    and kk: "kk = 5 + k + length (takeWhile (\<lambda>c. c \<noteq> CHR ''<'') (drop k t)) + 6"
    unfolding match_loc_def r
    by (auto simp: Let_def split: if_splits option.splits)
  define b where "b = takeWhile (\<lambda>c. c \<noteq> CHR ''<'') (drop k t)"
  from match_scheme_SomeD [OF ms] have lk: "length (take k t) = k"
    and ns: "CHR ''<'' \<notin> set (take k t)"
    by auto
  from cl obtain rest where c: "drop (k + length b) t = ''</loc>'' @ rest"
    unfolding b_def prefix_def by blast
  have bt: "b = take (length b) (drop k t)"
    unfolding b_def by (rule takeWhile_eq_take)
  have nb: "CHR ''<'' \<notin> set b"
    unfolding b_def using set_takeWhileD by fastforce
  have bne': "b \<noteq> []"
    using bne unfolding b_def .
  have gt: "g = take (k + length b) t"
    unfolding g b_def ..
  have "take (k + length b) t = take k t @ take (length b) (drop k t)"
    by (rule take_add)
  then have gb: "g = take k t @ b"
    unfolding gt using bt by simp
  have "g @ drop (k + length b) t = t"
    unfolding gt by (rule append_take_drop_id)
  then have t: "g @ ''</loc>'' @ rest = t"
    by (simp only: c)
  have lg: "length g = k + length b"
    unfolding gb using lk by simp
  have "0 < length b"
    using bne' by simp
  then have kl: "k < length g"
    using lg by simp
  have mg: "match_scheme g = Some k"
    unfolding gt using ms by (rule match_scheme_take) simp
  have ng: "CHR ''<'' \<notin> set g"
    unfolding gb using ns nb by simp
  have sg: "s = ''<loc>'' @ g @ ''</loc>'' @ rest"
    unfolding s using t by simp
  have kkg: "kk = length g + 11"
    unfolding kk lg b_def by simp
  from sg kkg mg kl ng show ?thesis by blast
qed

lemma findall_loc_sound:
  "g \<in> set (findall match_loc s) \<Longrightarrow>
   \<exists>pre post k. s = pre @ ''<loc>'' @ g @ ''</loc>'' @ post \<and>
      match_scheme g = Some k \<and> k < length g \<and> CHR ''<'' \<notin> set g"
proof (induction s rule: length_induct)
  case (1 s)
  show ?case
  proof (cases s)
    case Nil
    with 1 show ?thesis by simp
  next
    case (Cons c cs)
    show ?thesis
    proof (cases "match_loc s")
      case None
      with 1 Cons have "g \<in> set (findall match_loc cs)"
        by simp
      with 1 Cons obtain pre post k where "cs = pre @ ''<loc>'' @ g @ ''</loc>'' @ post"
        and q: "match_scheme g = Some k \<and> k < length g \<and> CHR ''<'' \<notin> set g"
        by (metis length_Cons lessI)
      then have "s = (c # pre) @ ''<loc>'' @ g @ ''</loc>'' @ post"
        using Cons by simp
      with q show ?thesis by blast
    next
      case (Some m)
      obtain h kk where m: "m = (h, kk)" by (cases m)
      from Some m Cons 1 have "g = h \<or> g \<in> set (findall match_loc (drop (kk - 1) cs))"
        by auto
      then show ?thesis
      proof
        assume "g = h"
        with match_loc_groupD [OF Some [unfolded m]]
        obtain k rest where "s = [] @ ''<loc>'' @ g @ ''</loc>'' @ rest"
          and "match_scheme g = Some k \<and> k < length g \<and> CHR ''<'' \<notin> set g"
          by auto
        then show ?thesis by blast
      next
        assume a: "g \<in> set (findall match_loc (drop (kk - 1) cs))"
        have "length (drop (kk - 1) cs) < length s"
          using Cons by simp
        with 1 a obtain pre post k where
          d: "drop (kk - 1) cs = pre @ ''<loc>'' @ g @ ''</loc>'' @ post"
          and q: "match_scheme g = Some k \<and> k < length g \<and> CHR ''<'' \<notin> set g"
          by blast
        have "s = (c # take (kk - 1) cs) @ drop (kk - 1) cs"
          using Cons by simp
        then have "s = (c # take (kk - 1) cs @ pre) @ ''<loc>'' @ g @ ''</loc>'' @ post"
          unfolding d by simp
        with q show ?thesis by blast
      qed
    qed
  qed
qed


lemma http_url_iff:
  "http_url url \<longleftrightarrow>
   (\<exists>k. match_scheme url = Some k \<and> k < length url) \<and> CHR ''<'' \<notin> set url"
proof -
  have "(\<exists>rest. rest \<noteq> [] \<and> (url = ''http://'' @ rest \<or> url = ''https://'' @ rest)) \<longleftrightarrow>
        (\<exists>k. match_scheme url = Some k \<and> k < length url)"
  proof
    assume "\<exists>rest. rest \<noteq> [] \<and> (url = ''http://'' @ rest \<or> url = ''https://'' @ rest)"
    then obtain rest where r: "rest \<noteq> []"
      and u: "url = ''http://'' @ rest \<or> url = ''https://'' @ rest"
      by blast
    from u show "\<exists>k. match_scheme url = Some k \<and> k < length url"
    proof
      assume "url = ''http://'' @ rest"
      with r have "match_scheme url = Some 7 \<and> 7 < length url"
        by (simp add: match_scheme_def)
      then show ?thesis by blast
    next
      assume "url = ''https://'' @ rest"
      with r have "match_scheme url = Some 8 \<and> 8 < length url"
        by (simp add: match_scheme_def)
      then show ?thesis by blast
    qed
  next
    assume "\<exists>k. match_scheme url = Some k \<and> k < length url"
    then obtain k where m: "match_scheme url = Some k" and l: "k < length url"
      by blast
    from m have "(k = 8 \<and> prefix ''https://'' url) \<or> (k = 7 \<and> prefix ''http://'' url)"
      by (auto simp: match_scheme_def split: if_splits)
    then show "\<exists>rest. rest \<noteq> [] \<and> (url = ''http://'' @ rest \<or> url = ''https://'' @ rest)"
    proof
      assume "k = 8 \<and> prefix ''https://'' url"
      then obtain rest where "url = ''https://'' @ rest" and "k = 8"
        by (auto simp: prefix_def)
      with l have "rest \<noteq> []" by auto
      with \<open>url = ''https://'' @ rest\<close> show ?thesis by blast
    next
      assume "k = 7 \<and> prefix ''http://'' url"
      then obtain rest where "url = ''http://'' @ rest" and "k = 7"
        by (auto simp: prefix_def)
      with l have "rest \<noteq> []" by auto
      with \<open>url = ''http://'' @ rest\<close> show ?thesis by blast
    qed
  qed
  then show ?thesis
    by (simp add: http_url_def)
qed

lemma set_findall_loc: "set (findall_loc content) = loc_spans content"
proof (intro set_eqI iffI)
  fix url
  assume "url \<in> set (findall_loc content)"
  then have "url \<in> set (findall match_loc content)"
    by (simp add: findall_loc_def)
  from findall_loc_sound [OF this]
  show "url \<in> loc_spans content"
    unfolding loc_spans_def http_url_iff by blast
next
  fix url
  assume "url \<in> loc_spans content"
  then obtain pre post k where c: "content = pre @ ''<loc>'' @ url @ ''</loc>'' @ post"
    and m: "match_scheme url = Some k" and l: "k < length url" and n: "CHR ''<'' \<notin> set url"
    unfolding loc_spans_def http_url_iff by blast
  show "url \<in> set (findall_loc content)"
    unfolding c using m l n by (rule findall_loc_embedded)
qed


section \<open>Properties of parsing\<close>

lemma set_set_add: "set (set_add urls u) = insert u (set urls)"
  by (auto simp: set_add_def)

lemma set_set_update: "set (set_update urls us) = set urls \<union> set us"
  unfolding set_update_def
  by (induction us arbitrary: urls) (auto simp: set_set_add)

lemma distinct_set_add: "distinct urls \<Longrightarrow> distinct (set_add urls u)"
  by (auto simp: set_add_def)

lemma distinct_set_update: "distinct urls \<Longrightarrow> distinct (set_update urls us)"
  unfolding set_update_def
  by (induction us arbitrary: urls) (auto simp: distinct_set_add)

lemma parse_sitemap_not_html:
  "\<not> returns_from_html c \<Longrightarrow>
   snd (parse_sitemap e (Suc n) c) =
   snd (xml_case e (\<lambda>u. fetch_sitemap e n u False) (\<lambda>c. parse_sitemap e n c) c)"
  by (auto simp: parse_sitemap_body_def returns_from_html_def Let_def split: prod.splits)

lemma xml_case_fallback:
  "etree_fromstring e c = Inl ex \<Longrightarrow>
   snd (xml_case e fetch rec c) =
     (if findall_loc c \<noteq> [] then Inr (set_update [] (findall_loc c)) else Inl ex)"
  by (simp add: xml_case_def Let_def)

text \<open>
  Claim C6. When \<^verbatim>\<open>etree.fromstring\<close> raises on the content (and \<^verbatim>\<open>parse_sitemap\<close> has not
  returned from its HTML case before), the result is decided by the spans
  \<^verbatim>\<open><loc>...</loc>\<close> that hold an http(s) URL: when there is one, \<^verbatim>\<open>parse_sitemap\<close> returns
  exactly the set of the URLs of these spans; when there is none, \<^verbatim>\<open>parse_sitemap\<close> raises
  the exception of the XML parser. The URL of \<^verbatim>\<open><loc>https://a.test/x</loc>\<close> is among them
  wherever that span stands in the content; the witness is the malformed document
  \<^verbatim>\<open><urlset><loc>https://a.test/x</loc>\<close>, which gives the set of the one URL.
\<close>

theorem parse_sitemap_regex_fallback:
  assumes "etree_fromstring e c = Inl ex" and "\<not> returns_from_html c"
  shows "(loc_spans c \<noteq> {} \<longrightarrow>
            (\<exists>lg urls. parse_sitemap e (Suc n) c = (lg, Inr urls) \<and> set urls = loc_spans c)) \<and>
         (loc_spans c = {} \<longrightarrow> (\<exists>lg. parse_sitemap e (Suc n) c = (lg, Inl ex))) \<and>
         (\<forall>pre post. c = pre @ ''<loc>https://a.test/x</loc>'' @ post \<longrightarrow>
            ''https://a.test/x'' \<in> loc_spans c)"
proof -
  have r: "snd (parse_sitemap e (Suc n) c) =
     (if findall_loc c \<noteq> [] then Inr (set_update [] (findall_loc c)) else Inl ex)"
    using assms by (simp add: parse_sitemap_not_html xml_case_fallback del: parse_sitemap.simps)
  have e: "findall_loc c = [] \<longleftrightarrow> loc_spans c = {}"
    using set_findall_loc [of c] by (metis set_empty)
  have s: "set (set_update [] (findall_loc c)) = loc_spans c"
    by (simp add: set_set_update set_findall_loc)
  have h: "http_url ''https://a.test/x''"
    unfolding http_url_def by (intro conjI exI [of _ "''a.test/x''"]) simp_all
  have x: "\<forall>pre post. c = pre @ ''<loc>https://a.test/x</loc>'' @ post \<longrightarrow>
            ''https://a.test/x'' \<in> loc_spans c"
  proof (intro allI impI)
    fix pre post
    assume "c = pre @ ''<loc>https://a.test/x</loc>'' @ post"
    then have "c = pre @ ''<loc>'' @ ''https://a.test/x'' @ ''</loc>'' @ post"
      by simp
    with h show "''https://a.test/x'' \<in> loc_spans c"
      unfolding loc_spans_def by blast
  qed
  obtain lg res where p: "parse_sitemap e (Suc n) c = (lg, res)"
    by (cases "parse_sitemap e (Suc n) c")
  from r p have res: "res = (if findall_loc c \<noteq> [] then Inr (set_update [] (findall_loc c))
      else Inl ex)"
    by simp
  from p res e s x show ?thesis
    by (cases "findall_loc c = []") simp_all
qed

theorem parse_sitemap_regex_fallback_witness:
  "etree_fromstring offline_env ''<urlset><loc>https://a.test/x</loc>''
     = Inl (Exn XMLSyntaxError ''not well-formed'') \<and>
   \<not> returns_from_html ''<urlset><loc>https://a.test/x</loc>'' \<and>
   loc_spans ''<urlset><loc>https://a.test/x</loc>'' = {''https://a.test/x''} \<and>
   (\<exists>lg urls. parse_sitemap offline_env (Suc 0) ''<urlset><loc>https://a.test/x</loc>'' = (lg, Inr urls)
       \<and> set urls = {''https://a.test/x''})"
proof -
  have h1: "etree_fromstring offline_env ''<urlset><loc>https://a.test/x</loc>''
     = Inl (Exn XMLSyntaxError ''not well-formed'')"
    by (simp add: offline_env_def)
  have h2: "\<not> returns_from_html ''<urlset><loc>https://a.test/x</loc>''"
    by code_simp
  have "findall_loc ''<urlset><loc>https://a.test/x</loc>'' = [''https://a.test/x'']"
    by code_simp
  then have h3: "loc_spans ''<urlset><loc>https://a.test/x</loc>'' = {''https://a.test/x''}"
    using set_findall_loc [of "''<urlset><loc>https://a.test/x</loc>''"] by simp
  then have ne: "loc_spans ''<urlset><loc>https://a.test/x</loc>'' \<noteq> {}"
    by simp
  from parse_sitemap_regex_fallback [OF h1 h2, of 0] ne
  have "\<exists>lg urls. parse_sitemap offline_env (Suc 0) ''<urlset><loc>https://a.test/x</loc>'' = (lg, Inr urls)
       \<and> set urls = loc_spans ''<urlset><loc>https://a.test/x</loc>''"
    by blast
  with h1 h2 h3 show ?thesis by simp
qed


lemma html_urls_loop_Inl:
  "html_urls_loop e base xs acc = Inl ex \<Longrightarrow>
   \<exists>u\<in>set xs. startswith u ''/'' \<and> urljoin e base u = Inl ex"
  by (induction xs arbitrary: acc) (auto split: if_splits sum.splits)












lemma index_loop_step:
  "snd (index_loop (\<lambda>u. fetch_sitemap e n u False) (\<lambda>c. parse_sitemap e n c) (u # subs) urls) =
   snd (index_loop (\<lambda>u. fetch_sitemap e n u False) (\<lambda>c. parse_sitemap e n c) subs
          (case sub_sitemap e n u of None \<Rightarrow> urls | Some s \<Rightarrow> set_update urls s))"
  by (simp add: sub_sitemap_def split: prod.splits sum.splits)

lemma index_loop_set:
  "set (snd (index_loop (\<lambda>u. fetch_sitemap e n u False) (\<lambda>c. parse_sitemap e n c) subs urls)) =
   set urls \<union> (\<Union>u \<in> set subs. case sub_sitemap e n u of None \<Rightarrow> {} | Some s \<Rightarrow> set s)"
proof (induction subs arbitrary: urls)
  case Nil
  then show ?case by simp
next
  case (Cons u subs)
  show ?case
    unfolding index_loop_step Cons.IH
    by (cases "sub_sitemap e n u") (auto simp: set_set_update)
qed

text \<open>
  Claim C4. Let the content go to the XML parser, and let the parser return a root whose
  tag ends with \<^verbatim>\<open>sitemapindex\<close> and in which the query finds the two sub-sitemaps \<open>u1\<close> and
  \<open>u2\<close>. Then \<^verbatim>\<open>parse_sitemap\<close> returns, and the set it returns is the union of what the two
  sub-sitemaps give, where a sub-sitemap whose fetch or parse raises gives nothing: with
  both in order it is the union of both sets, with one failing it is the set of the
  other.
\<close>

theorem parse_sitemap_index_union:
  assumes "\<not> returns_from_html c"
      and "etree_fromstring e c = Inr root"
      and "endswith (tag root) ''sitemapindex''"
      and "xpath root ''//sm:sitemap/sm:loc/text()'' = [u1, u2]"
  shows "\<exists>lg urls. parse_sitemap e (Suc n) c = (lg, Inr urls) \<and>
           set urls = (case sub_sitemap e n u1 of None \<Rightarrow> {} | Some s \<Rightarrow> set s) \<union>
                      (case sub_sitemap e n u2 of None \<Rightarrow> {} | Some s \<Rightarrow> set s)"
proof -
  obtain lg urls where il: "index_loop (\<lambda>u. fetch_sitemap e n u False) (\<lambda>c. parse_sitemap e n c)
      [u1, u2] [] = (lg, urls)"
    by (cases "index_loop (\<lambda>u. fetch_sitemap e n u False) (\<lambda>c. parse_sitemap e n c) [u1, u2] []")
  have "snd (parse_sitemap e (Suc n) c) = Inr urls"
    using assms il
    by (simp add: parse_sitemap_not_html xml_case_def del: parse_sitemap.simps index_loop.simps)
  moreover have "set urls = (case sub_sitemap e n u1 of None \<Rightarrow> {} | Some s \<Rightarrow> set s) \<union>
                      (case sub_sitemap e n u2 of None \<Rightarrow> {} | Some s \<Rightarrow> set s)"
    using index_loop_set [of e n "[u1, u2]" "[]"] il by simp
  ultimately show ?thesis
    by (cases "parse_sitemap e (Suc n) c") auto
qed



theorem parse_sitemap_index_union_witness:
  "\<not> returns_from_html index_12 \<and>
   etree_fromstring site_env index_12 =
     Inr (index_root [''http://a.t/s1.xml'', ''http://a.t/s2.xml'']) \<and>
   sub_sitemap site_env 1 ''http://a.t/s1.xml'' = Some [''http://a.t/1''] \<and>
   sub_sitemap site_env 1 ''http://a.t/s2.xml'' = Some [''http://a.t/2''] \<and>
   (\<exists>lg urls. parse_sitemap site_env (Suc 1) index_12 = (lg, Inr urls) \<and>
      set urls = {''http://a.t/1'', ''http://a.t/2''}) \<and>
   \<not> returns_from_html index_gone \<and>
   etree_fromstring site_env index_gone =
     Inr (index_root [''http://a.t/gone.xml'', ''http://a.t/s2.xml'']) \<and>
   sub_sitemap site_env 1 ''http://a.t/gone.xml'' = None \<and>
   (\<exists>lg urls. parse_sitemap site_env (Suc 1) index_gone = (lg, Inr urls) \<and>
      set urls = {''http://a.t/2''})"
proof -
  have a1: "\<not> returns_from_html index_12" by code_simp
  have a2: "etree_fromstring site_env index_12 =
      Inr (index_root [''http://a.t/s1.xml'', ''http://a.t/s2.xml''])"
    by (simp add: site_env_def index_12_def sitemap_1_def sitemap_2_def)
  have a3: "endswith (tag (index_root [''http://a.t/s1.xml'', ''http://a.t/s2.xml'']))
      ''sitemapindex''" by code_simp
  have a4: "xpath (index_root [''http://a.t/s1.xml'', ''http://a.t/s2.xml''])
      ''//sm:sitemap/sm:loc/text()'' = [''http://a.t/s1.xml'', ''http://a.t/s2.xml'']"
    by (simp add: index_root_def)
  have s1: "sub_sitemap site_env 1 ''http://a.t/s1.xml'' = Some [''http://a.t/1'']"
    by code_simp
  have s2: "sub_sitemap site_env 1 ''http://a.t/s2.xml'' = Some [''http://a.t/2'']"
    by code_simp
  have b1: "\<not> returns_from_html index_gone" by code_simp
  have b2: "etree_fromstring site_env index_gone =
      Inr (index_root [''http://a.t/gone.xml'', ''http://a.t/s2.xml''])"
    by (simp add: site_env_def index_12_def index_gone_def sitemap_1_def sitemap_2_def)
  have b3: "endswith (tag (index_root [''http://a.t/gone.xml'', ''http://a.t/s2.xml'']))
      ''sitemapindex''" by code_simp
  have b4: "xpath (index_root [''http://a.t/gone.xml'', ''http://a.t/s2.xml''])
      ''//sm:sitemap/sm:loc/text()'' = [''http://a.t/gone.xml'', ''http://a.t/s2.xml'']"
    by (simp add: index_root_def)
  have s3: "sub_sitemap site_env 1 ''http://a.t/gone.xml'' = None"
    by code_simp
  have r1: "\<exists>lg urls. parse_sitemap site_env (Suc 1) index_12 = (lg, Inr urls) \<and>
      set urls = {''http://a.t/1'', ''http://a.t/2''}"
  proof -
    obtain lg urls where p: "parse_sitemap site_env (Suc 1) index_12 = (lg, Inr urls)"
      and u: "set urls =
        (case sub_sitemap site_env 1 ''http://a.t/s1.xml'' of None \<Rightarrow> {} | Some s \<Rightarrow> set s) \<union>
        (case sub_sitemap site_env 1 ''http://a.t/s2.xml'' of None \<Rightarrow> {} | Some s \<Rightarrow> set s)"
      using parse_sitemap_index_union [OF a1 a2 a3 a4, of 1] by blast
    have "set urls = {''http://a.t/1'', ''http://a.t/2''}"
      unfolding u s1 s2 by (simp add: insert_commute)
    with p show ?thesis by blast
  qed
  have r2: "\<exists>lg urls. parse_sitemap site_env (Suc 1) index_gone = (lg, Inr urls) \<and>
      set urls = {''http://a.t/2''}"
  proof -
    obtain lg urls where p: "parse_sitemap site_env (Suc 1) index_gone = (lg, Inr urls)"
      and u: "set urls =
        (case sub_sitemap site_env 1 ''http://a.t/gone.xml'' of None \<Rightarrow> {} | Some s \<Rightarrow> set s) \<union>
        (case sub_sitemap site_env 1 ''http://a.t/s2.xml'' of None \<Rightarrow> {} | Some s \<Rightarrow> set s)"
      using parse_sitemap_index_union [OF b1 b2 b3 b4, of 1] by blast
    have "set urls = {''http://a.t/2''}"
      unfolding u s3 s2 by simp
    with p show ?thesis by blast
  qed
  from a1 a2 s1 s2 r1 b1 b2 s3 r2 show ?thesis by blast
qed

lemma distinct_html_urls_loop:
  "distinct acc \<Longrightarrow> html_urls_loop e base xs acc = Inr urls \<Longrightarrow> distinct urls"
proof (induction xs arbitrary: acc)
  case Nil
  then show ?case by simp
next
  case (Cons x xs)
  from Cons.prems(2) obtain acc' where "distinct acc'"
    and "html_urls_loop e base xs acc' = Inr urls"
    using Cons.prems(1) by (auto split: if_splits sum.splits intro: distinct_set_add)
  then show ?case by (rule Cons.IH)
qed

lemma index_loop_Cons_snd:
  "snd (index_loop fetch rec (u # subs) urls) =
   snd (index_loop fetch rec subs
          (case fetch u of
             (lg1, Inl sub_e) \<Rightarrow> urls
           | (lg1, Inr content) \<Rightarrow>
               (case rec content of
                  (lg2, Inl sub_e) \<Rightarrow> urls
                | (lg2, Inr sub_urls) \<Rightarrow> set_update urls sub_urls)))"
  by (simp split: prod.splits sum.splits)

lemma distinct_index_loop:
  "distinct urls \<Longrightarrow> distinct (snd (index_loop fetch rec subs urls))"
proof (induction subs arbitrary: urls)
  case Nil
  then show ?case by simp
next
  case (Cons u subs)
  have "distinct (case fetch u of
             (lg1, Inl sub_e) \<Rightarrow> urls
           | (lg1, Inr content) \<Rightarrow>
               (case rec content of
                  (lg2, Inl sub_e) \<Rightarrow> urls
                | (lg2, Inr sub_urls) \<Rightarrow> set_update urls sub_urls))"
    using Cons.prems by (auto split: prod.splits sum.splits intro: distinct_set_update)
  then show ?case
    unfolding index_loop_Cons_snd by (rule Cons.IH)
qed

lemma distinct_xml_case:
  assumes "xml_case e fetch rec c = (lg, Inr urls)"
  shows "distinct urls"
proof (cases "etree_fromstring e c")
  case (Inl ex)
  with assms show ?thesis
    by (auto simp: xml_case_def Let_def split: if_splits intro: distinct_set_update)
next
  case (Inr root)
  show ?thesis
  proof (cases "endswith (tag root) ''sitemapindex''")
    case True
    have "distinct (snd (index_loop fetch rec (xpath root ''//sm:sitemap/sm:loc/text()'') []))"
      by (rule distinct_index_loop) simp
    with assms Inr True show ?thesis
      by (auto simp: xml_case_def split: prod.splits)
  next
    case False
    with assms Inr show ?thesis
      by (auto simp: xml_case_def intro: distinct_set_update)
  qed
qed

lemma distinct_html_urls_case:
  "html_urls_case e c hs = (lg, Inr urls) \<Longrightarrow> distinct urls"
  using distinct_html_urls_loop [of "[]"]
  by (auto simp: html_urls_case_def Let_def split: sum.splits)

lemma distinct_parse_sitemap:
  "parse_sitemap e n c = (lg, Inr urls) \<Longrightarrow> distinct urls"
proof (cases n)
  case 0
  assume "parse_sitemap e n c = (lg, Inr urls)"
  with 0 show ?thesis by simp
next
  case (Suc m)
  assume "parse_sitemap e n c = (lg, Inr urls)"
  with Suc show ?thesis
    by (auto simp: parse_sitemap_body_def Let_def
        split: if_splits prod.splits dest: distinct_xml_case distinct_html_urls_case)
qed

lemma distinct_fetch_and_parse:
  "fetch_and_parse e url = Inr current \<Longrightarrow> distinct current"
  by (auto simp: fetch_and_parse_def split: prod.splits sum.splits dest: distinct_parse_sitemap)


section \<open>Properties of fetching\<close>

lemma auto_fix_robots:
  "py_in ''robots.txt'' (lower url) \<Longrightarrow> auto_fix url special = ([], url)"
  by (simp add: auto_fix_def)

lemma site_specific_other:
  "domain \<notin> {''github.com'', ''twitter.com'', ''x.com'', ''google.com'', ''www.google.com''} \<Longrightarrow>
   site_specific url domain = ([], Inr (url, False))"
  by (simp add: site_specific_def)

lemma robots_case_result:
  "snd (robots_case rec content flag) =
     (case findall_sitemap_line content of
        [] \<Rightarrow> Inl (Exn RequestException ''No sitemaps found in robots.txt'')
      | s # others \<Rightarrow>
          if flag then Inr content
          else (case snd (rec s True) of
                  Inr new_content \<Rightarrow> Inr new_content
                | Inl ex \<Rightarrow> Inr content))"
  by (simp add: robots_case_def Let_def split: list.splits prod.splits sum.splits)

lemma robots_case_flagged:
  "robots_redirects (fst (robots_case rec content True)) = 0"
  by (simp add: robots_case_def Let_def robots_redirects_def split: list.splits)

lemma fetch_sitemap_robots:
  assumes "urlparse e url = Inr p"
      and "lower (netloc p) \<notin>
             {''github.com'', ''twitter.com'', ''x.com'', ''google.com'', ''www.google.com''}"
      and "py_in ''robots.txt'' (lower url)"
      and "requests_get e url = Inr resp"
      and "http_error resp = None"
  shows "snd (fetch_sitemap e (Suc n) url flag) =
     (case findall_sitemap_line (resp_text resp) of
        [] \<Rightarrow> Inl (Exn RequestException ''No sitemaps found in robots.txt'')
      | s # others \<Rightarrow>
          if flag then Inr (resp_text resp)
          else (case snd (fetch_sitemap e n s True) of
                  Inr new_content \<Rightarrow> Inr new_content
                | Inl ex \<Rightarrow> Inr (resp_text resp)))"
proof -
  have "snd (request_and_follow e (\<lambda>u f. fetch_sitemap e n u f) p url flag) =
          snd (robots_case (\<lambda>u f. fetch_sitemap e n u f) (resp_text resp) flag)"
    using assms by (simp add: request_and_follow_def Let_def split: prod.splits)
  then have "snd (fetch_sitemap e (Suc n) url flag) =
          snd (robots_case (\<lambda>u f. fetch_sitemap e n u f) (resp_text resp) flag)"
    using assms(1-3)
    by (auto simp add: fetch_sitemap_body_def site_specific_other auto_fix_robots
        simp del: insert_iff split: prod.splits sum.splits)
  then show ?thesis
    by (simp only: robots_case_result)
qed

text \<open>
  Claim C8. The lemma above gives what \<^verbatim>\<open>fetch_sitemap\<close> does with a \<^verbatim>\<open>robots.txt\<close>: no
  sitemap line raises, a call that is itself a redirect returns the body, another call
  fetches the first sitemap with the flag set and falls back to the body when that fails.
  The flag does not bound the redirects of one fetch to one, since the call that follows a
  link of an HTML page drops the flag: in the example below the log of a single call of
  \<^verbatim>\<open>fetch_sitemap\<close> shows two redirects from a \<^verbatim>\<open>robots.txt\<close>.
\<close>

theorem robots_redirect_twice:
  "robots_redirects (fst (fetch_sitemap chain_env 5 ''http://a.t/robots.txt'' False)) = 2 \<and>
   snd (fetch_sitemap chain_env 5 ''http://a.t/robots.txt'' False) = Inr sitemap_1"
proof -
  have a: "robots_redirects (fst (fetch_sitemap chain_env 5 ''http://a.t/robots.txt'' False)) = 2"
    by code_simp
  have b: "snd (fetch_sitemap chain_env 5 ''http://a.t/robots.txt'' False) = Inr sitemap_1"
    by code_simp
  from a b show ?thesis by blast
qed


section \<open>Properties of checking\<close>

lemma map_of_dict_update: "map_of (dict_update k v kv) = (map_of kv)(k \<mapsto> v)"
  by (induction kv) (auto simp: fun_eq_iff)

lemma dict_update_not_Nil: "dict_update k v kv \<noteq> []"
  by (cases kv) (auto split: if_splits)

lemma set_of_items_strs:
  "\<forall>x \<in> set xs. \<exists>s. x = PStr s \<Longrightarrow>
   \<exists>prev. set_of_items acc xs = Inr prev \<and> set prev = set acc \<union> set xs"
proof (induction xs arbitrary: acc)
  case Nil
  then show ?case by simp
next
  case (Cons x xs)
  then obtain s where x: "x = PStr s" by auto
  from Cons.prems have "\<forall>x \<in> set xs. \<exists>s. x = PStr s" by simp
  from Cons.IH [OF this, of "if PStr s \<in> set acc then acc else acc @ [PStr s]"]
  show ?case by (auto simp: x)
qed

lemma diff_known_first:
  assumes "map_of kv url = None"
  shows "\<exists>kv' lg. diff_known (PDict kv) url cur = (PDict kv', lg, cur, None) \<and>
           map_of kv' = (map_of kv)(url \<mapsto> PList (map PStr cur))"
proof -
  have nk: "url \<notin> fst ` set kv"
    using assms by (simp add: map_of_eq_None_iff)
  show ?thesis
  proof (cases "cur = []")
    case True
    with nk show ?thesis
      by (simp add: diff_known_def map_of_dict_update py_set_def)
  next
    case False
    with nk show ?thesis
      by (simp add: diff_known_def map_of_dict_update py_set_def Let_def)
  qed
qed

lemma diff_known_same:
  assumes "map_of kv url = Some (PList stored)" and "set stored = PStr ` set cur"
  shows "\<exists>lg. diff_known (PDict kv) url cur = (PDict kv, lg, [], None)"
proof -
  have k: "url \<in> fst ` set kv"
    using assms(1) by (metis map_of_eq_None_iff option.distinct(1))
  have "\<forall>x \<in> set stored. \<exists>s. x = PStr s"
    using assms(2) by auto
  from set_of_items_strs [OF this, of "[]"]
  obtain prev where p: "set_of_items [] stored = Inr prev" and sp: "set prev = set stored"
    by auto
  have "filter (\<lambda>u. PStr u \<notin> set prev) cur = []"
    using sp assms(2) by (auto simp: filter_empty_conv)
  with k p assms(1) show ?thesis
    by (simp add: diff_known_def py_set_def Let_def)
qed

lemma diff_known_dict:
  "\<exists>kv' lg new exo. diff_known (PDict kv) url cur = (PDict kv', lg, new, exo) \<and>
     (\<forall>x. x \<noteq> url \<longrightarrow> map_of kv' x = map_of kv x)"
  by (auto simp: diff_known_def Let_def map_of_dict_update split: sum.splits)

lemma check_one_failed:
  "fetch_and_parse e url = Inl ex \<Longrightarrow>
   \<exists>lg. check_one e k url =
     (k, lg, \<lparr>sitemap_url = url, total_urls = 0, new_urls = [], error = str_exn ex\<rparr>)"
  by (auto simp: check_one_def fetch_and_parse_def Let_def split: prod.splits sum.splits)

lemma check_one_parsed:
  "fetch_and_parse e url = Inr cur \<Longrightarrow> diff_known k url cur = (k1, lg3, new, exo) \<Longrightarrow>
   \<exists>lg. check_one e k url =
     (k1, lg, \<lparr>sitemap_url = url, total_urls = length cur, new_urls = new,
               error = (case exo of None \<Rightarrow> [] | Some ex \<Rightarrow> str_exn ex)\<rparr>)"
  by (auto simp: check_one_def fetch_and_parse_def Let_def split: prod.splits sum.splits option.splits)

lemma check_one_sitemap_url: "sitemap_url (snd (snd (check_one e k url))) = url"
proof (cases "fetch_and_parse e url")
  case (Inl ex)
  from check_one_failed [OF this] show ?thesis by (metis select_convs(1) snd_conv)
next
  case (Inr cur)
  obtain k1 lg3 new exo where "diff_known k url cur = (k1, lg3, new, exo)"
    by (cases "diff_known k url cur") auto
  from check_one_parsed [OF Inr this] show ?thesis by (metis select_convs(1) snd_conv)
qed

lemma check_one_dict:
  "\<exists>kv' lg r. check_one e (PDict kv) url = (PDict kv', lg, r) \<and>
     (\<forall>x. x \<noteq> url \<longrightarrow> map_of kv' x = map_of kv x)"
proof (cases "fetch_and_parse e url")
  case (Inl ex)
  from check_one_failed [OF this] show ?thesis by blast
next
  case (Inr cur)
  obtain kv' lg3 new exo where d: "diff_known (PDict kv) url cur = (PDict kv', lg3, new, exo)"
    and o: "\<forall>x. x \<noteq> url \<longrightarrow> map_of kv' x = map_of kv x"
    using diff_known_dict by blast
  from check_one_parsed [OF Inr d] o show ?thesis by blast
qed

lemma check_one_first:
  assumes "map_of kv url = None" and "fetch_and_parse e url = Inr cur"
  shows "\<exists>kv' lg. check_one e (PDict kv) url =
           (PDict kv', lg,
            \<lparr>sitemap_url = url, total_urls = length cur, new_urls = cur, error = []\<rparr>) \<and>
           map_of kv' = (map_of kv)(url \<mapsto> PList (map PStr cur))"
proof -
  from diff_known_first [OF assms(1)]
  obtain kv' lg3 where d: "diff_known (PDict kv) url cur = (PDict kv', lg3, cur, None)"
    and m: "map_of kv' = (map_of kv)(url \<mapsto> PList (map PStr cur))"
    by blast
  from check_one_parsed [OF assms(2) d] m show ?thesis by auto
qed

lemma check_one_same:
  assumes "map_of kv url = Some (PList stored)" and "set stored = PStr ` set cur"
      and "fetch_and_parse e url = Inr cur"
  shows "\<exists>lg. check_one e (PDict kv) url =
           (PDict kv, lg,
            \<lparr>sitemap_url = url, total_urls = length cur, new_urls = [], error = []\<rparr>)"
proof -
  from diff_known_same [OF assms(1,2)]
  obtain lg3 where d: "diff_known (PDict kv) url cur = (PDict kv, lg3, [], None)"
    by blast
  from check_one_parsed [OF assms(3) d] show ?thesis by auto
qed

lemma check_loop_append:
  "check_loop e k (xs @ ys) =
     (case check_loop e k xs of
        (k1, lg1, rs1) \<Rightarrow>
          (case check_loop e k1 ys of
             (k2, lg2, rs2) \<Rightarrow> (k2, lg1 @ lg2, rs1 @ rs2)))"
  by (induction xs arbitrary: k) (auto split: prod.splits)

lemma check_loop_urls: "map sitemap_url (snd (snd (check_loop e k urls))) = urls"
proof (induction urls arbitrary: k)
  case Nil
  then show ?case by simp
next
  case (Cons u urls)
  obtain k1 lg1 r where c: "check_one e k u = (k1, lg1, r)"
    by (cases "check_one e k u") auto
  have "sitemap_url r = u"
    using check_one_sitemap_url [of e k u] c by simp
  with c Cons.IH [of k1] show ?case
    by (auto split: prod.splits)
qed

lemma check_loop_other:
  "url \<notin> set us \<Longrightarrow>
   \<exists>kv' lg rs. check_loop e (PDict kv) us = (PDict kv', lg, rs) \<and>
     map_of kv' url = map_of kv url"
proof (induction us arbitrary: kv)
  case Nil
  then show ?case by simp
next
  case (Cons u us)
  from check_one_dict [of e kv u]
  obtain kv1 lg1 r where c: "check_one e (PDict kv) u = (PDict kv1, lg1, r)"
    and o: "\<forall>x. x \<noteq> u \<longrightarrow> map_of kv1 x = map_of kv x"
    by blast
  from Cons.prems have "url \<noteq> u" "url \<notin> set us" by auto
  from Cons.IH [OF this(2), of kv1]
  obtain kv' lg rs where l: "check_loop e (PDict kv1) us = (PDict kv', lg, rs)"
    and m: "map_of kv' url = map_of kv1 url"
    by blast
  from c l m o \<open>url \<noteq> u\<close> show ?case by simp
qed

lemma check_loop_keeps:
  assumes "fetch_and_parse e url = Inr cur"
  shows "map_of kv url = Some (PList (map PStr cur)) \<Longrightarrow>
   \<exists>kv' lg rs. check_loop e (PDict kv) us = (PDict kv', lg, rs) \<and>
     map_of kv' url = Some (PList (map PStr cur))"
proof (induction us arbitrary: kv)
  case Nil
  then show ?case by simp
next
  case (Cons u us)
  have "\<exists>kv1 lg1 r. check_one e (PDict kv) u = (PDict kv1, lg1, r) \<and>
          map_of kv1 url = Some (PList (map PStr cur))"
  proof (cases "u = url")
    case True
    have "set (map PStr cur) = PStr ` set cur" by simp
    from check_one_same [OF Cons.prems this assms] True Cons.prems show ?thesis by blast
  next
    case False
    from check_one_dict [of e kv u] False Cons.prems show ?thesis by metis
  qed
  then obtain kv1 lg1 r where c: "check_one e (PDict kv) u = (PDict kv1, lg1, r)"
    and m1: "map_of kv1 url = Some (PList (map PStr cur))"
    by blast
  from Cons.IH [OF m1]
  obtain kv' lg rs where l: "check_loop e (PDict kv1) us = (PDict kv', lg, rs)"
    and m: "map_of kv' url = Some (PList (map PStr cur))"
    by blast
  from c l m show ?case by simp
qed


lemma final_save_writes:
  assumes "kv \<noteq> []" and "json_dumps e 2 (PDict kv) = Inr s"
      and "open_write_error e (KNOWN_URLS_FILE @ ''.tmp'') = None"
      and "replace_error e KNOWN_URLS_FILE = None"
  shows "fst (final_save e d (PDict kv)) KNOWN_URLS_FILE = Some s"
  using assms save_known_urls_writes [of "PDict kv" e s d]
  by (simp add: final_save_def)

text \<open>
  Claim C1. Let \<^verbatim>\<open>check_sitemaps\<close> start from a dictionary that has no entry for \<open>url\<close>, let
  \<open>url\<close> come in the list after the URLs \<open>pre\<close>, none of which is \<open>url\<close>, and let fetch and
  parse of \<open>url\<close> succeed with the URLs \<open>current\<close>. Then the result for \<open>url\<close> has no error and
  has all of \<open>current\<close> as its new URLs; at the end of the loop \<^verbatim>\<open>known_urls\<close> is a dictionary
  that maps \<open>url\<close> to the list of \<open>current\<close>; and when the calls of the write succeed, the
  store file holds what \<^verbatim>\<open>json.dumps\<close> prints for that dictionary.
\<close>

theorem first_check_reports_all:
  assumes "initial_known e d = (d1, lg0, PDict kv)"
      and "url \<notin> fst ` set kv"
      and "url \<notin> set pre"
      and "fetch_and_parse e url = Inr current"
  shows "\<exists>d2 lg rs kv' stored.
           check_sitemaps e d (pre @ url # post) = (d2, lg, rs) \<and>
           sitemap_url (rs ! length pre) = url \<and>
           error (rs ! length pre) = [] \<and>
           total_urls (rs ! length pre) = card (set current) \<and>
           set (new_urls (rs ! length pre)) = set current \<and>
           fst (check_loop e (PDict kv) (pre @ url # post)) = PDict kv' \<and>
           map_of kv' url = Some (PList stored) \<and>
           set stored = PStr ` set current \<and>
           (\<forall>s. json_dumps e 2 (PDict kv') = Inr s \<and>
                open_write_error e (KNOWN_URLS_FILE @ ''.tmp'') = None \<and>
                replace_error e KNOWN_URLS_FILE = None \<longrightarrow>
                d2 KNOWN_URLS_FILE = Some s)"
proof -
  have n0: "map_of kv url = None"
    using assms(2) by (simp add: map_of_eq_None_iff)
  from check_loop_other [OF assms(3), of e kv]
  obtain kv1 lg1 rs1 where l1: "check_loop e (PDict kv) pre = (PDict kv1, lg1, rs1)"
    and m1: "map_of kv1 url = map_of kv url"
    by blast
  have len: "length rs1 = length pre"
    using check_loop_urls [of e "PDict kv" pre] l1 by (metis length_map snd_conv)
  from check_one_first [OF _ assms(4), of kv1] m1 n0
  obtain kv2 lg2 where c: "check_one e (PDict kv1) url =
      (PDict kv2, lg2,
       \<lparr>sitemap_url = url, total_urls = length current, new_urls = current, error = []\<rparr>)"
    and m2: "map_of kv2 = (map_of kv1)(url \<mapsto> PList (map PStr current))"
    by auto
  have m2': "map_of kv2 url = Some (PList (map PStr current))"
    by (simp add: m2)
  from check_loop_keeps [OF assms(4) m2', of post]
  obtain kv' lg3 rs3 where l3: "check_loop e (PDict kv2) post = (PDict kv', lg3, rs3)"
    and m3: "map_of kv' url = Some (PList (map PStr current))"
    by blast
  have whole: "check_loop e (PDict kv) (pre @ url # post) =
      (PDict kv', lg1 @ lg2 @ lg3,
       rs1 @ \<lparr>sitemap_url = url, total_urls = length current, new_urls = current,
               error = []\<rparr> # rs3)"
    by (simp add: check_loop_append l1 c l3)
  obtain d2 lg4 where f: "final_save e d1 (PDict kv') = (d2, lg4)"
    by (cases "final_save e d1 (PDict kv')") auto
  have cs: "check_sitemaps e d (pre @ url # post) =
      (d2, lg0 @ (lg1 @ lg2 @ lg3) @ lg4,
       rs1 @ \<lparr>sitemap_url = url, total_urls = length current, new_urls = current,
               error = []\<rparr> # rs3)"
    by (simp add: check_sitemaps_def assms(1) whole f del: check_loop.simps)
  have ne: "kv' \<noteq> []"
    using m3 by auto
  have sv: "\<forall>s. json_dumps e 2 (PDict kv') = Inr s \<and>
                open_write_error e (KNOWN_URLS_FILE @ ''.tmp'') = None \<and>
                replace_error e KNOWN_URLS_FILE = None \<longrightarrow>
                d2 KNOWN_URLS_FILE = Some s"
    using final_save_writes [OF ne, of e _ d1] f by auto
  have nth: "(rs1 @ \<lparr>sitemap_url = url, total_urls = length current, new_urls = current,
               error = []\<rparr> # rs3) ! length pre =
       \<lparr>sitemap_url = url, total_urls = length current, new_urls = current, error = []\<rparr>"
    using len by (simp add: nth_append)
  have card: "length current = card (set current)"
    using distinct_fetch_and_parse [OF assms(4)] by (simp add: distinct_card)
  from cs nth whole m3 sv card show ?thesis
    by (intro exI [of _ d2] exI [of _ "lg0 @ (lg1 @ lg2 @ lg3) @ lg4"]
        exI [of _ "rs1 @ \<lparr>sitemap_url = url, total_urls = length current, new_urls = current,
               error = []\<rparr> # rs3"] exI [of _ kv'] exI [of _ "map PStr current"]) simp
qed

theorem first_check_reports_all_witness:
  "initial_known site_env empty_disk = (empty_disk, [], PDict []) \<and>
   fetch_and_parse site_env ''http://a.t/s1.xml'' = Inr [''http://a.t/1''] \<and>
   json_dumps site_env 2 (PDict [(''http://a.t/s1.xml'', PList [PStr ''http://a.t/1''])]) =
     Inr store_1 \<and>
   (\<exists>d2 lg rs.
      check_sitemaps site_env empty_disk [''http://a.t/s1.xml''] = (d2, lg, rs) \<and>
      error (rs ! 0) = [] \<and>
      total_urls (rs ! 0) = 1 \<and>
      set (new_urls (rs ! 0)) = {''http://a.t/1''} \<and>
      d2 KNOWN_URLS_FILE = Some store_1)"
proof -
  have i: "initial_known site_env empty_disk = (empty_disk, [], PDict [])"
    by (simp add: initial_known_def path_exists_def empty_disk_def)
  have a: "''http://a.t/s1.xml'' \<notin> fst ` set ([] :: (string \<times> pyval) list)"
    by simp
  have b: "''http://a.t/s1.xml'' \<notin> set ([] :: string list)"
    by simp
  have f: "fetch_and_parse site_env ''http://a.t/s1.xml'' = Inr [''http://a.t/1'']"
    by code_simp
  have j: "json_dumps site_env 2 (PDict [(''http://a.t/s1.xml'', PList [PStr ''http://a.t/1''])]) =
     Inr store_1"
    by (simp add: site_env_def)
  have w: "open_write_error site_env (KNOWN_URLS_FILE @ ''.tmp'') = None"
    by (simp add: site_env_def offline_env_def)
  have r: "replace_error site_env KNOWN_URLS_FILE = None"
    by (simp add: site_env_def offline_env_def)
  have l: "fst (check_loop site_env (PDict []) [''http://a.t/s1.xml'']) =
      PDict [(''http://a.t/s1.xml'', PList [PStr ''http://a.t/1''])]"
    by code_simp
  from first_check_reports_all [OF i a b f, of "[]"]
  obtain d2 lg rs kv' where c: "check_sitemaps site_env empty_disk [''http://a.t/s1.xml''] = (d2, lg, rs)"
    and n: "error (rs ! 0) = []" "total_urls (rs ! 0) = 1"
      "set (new_urls (rs ! 0)) = {''http://a.t/1''}"
    and k: "fst (check_loop site_env (PDict []) [''http://a.t/s1.xml'']) = PDict kv'"
    and s: "\<forall>s. json_dumps site_env 2 (PDict kv') = Inr s \<and>
                open_write_error site_env (KNOWN_URLS_FILE @ ''.tmp'') = None \<and>
                replace_error site_env KNOWN_URLS_FILE = None \<longrightarrow>
                d2 KNOWN_URLS_FILE = Some s"
    by auto
  from k l have "kv' = [(''http://a.t/s1.xml'', PList [PStr ''http://a.t/1''])]"
    by simp
  with s j w r have "d2 KNOWN_URLS_FILE = Some store_1"
    by blast
  with i f j c n show ?thesis by blast
qed

lemma check_loop_unchanged:
  "\<forall>u \<in> set urls. unchanged e kv u \<Longrightarrow>
   \<exists>lg rs. check_loop e (PDict kv) urls = (PDict kv, lg, rs) \<and>
     (\<forall>r \<in> set rs. new_urls r = [] \<and> error r = [])"
proof (induction urls)
  case Nil
  then show ?case by simp
next
  case (Cons u urls)
  from Cons.prems have "unchanged e kv u" by simp
  then obtain stored cur where m: "map_of kv u = Some (PList stored)"
    and f: "fetch_and_parse e u = Inr cur" and s: "set stored = PStr ` set cur"
    by (auto simp: unchanged_def split: option.splits pyval.splits sum.splits)
  from check_one_same [OF m s f]
  obtain lg1 where c: "check_one e (PDict kv) u =
      (PDict kv, lg1, \<lparr>sitemap_url = u, total_urls = length cur, new_urls = [], error = []\<rparr>)"
    by blast
  from Cons.IH Cons.prems
  obtain lg rs where l: "check_loop e (PDict kv) urls = (PDict kv, lg, rs)"
    and a: "\<forall>r \<in> set rs. new_urls r = [] \<and> error r = []"
    by auto
  from c l a show ?case by simp
qed

text \<open>
  Claim C2. When the dictionary has for \<open>url\<close> a list whose set is the set of the URLs that
  fetch and parse give now, the check of \<open>url\<close> reports no new URL and no error, and leaves
  the whole dictionary as it is. A loop over URLs that are all in this state leaves the
  dictionary as it is and reports no new URL at all.
\<close>

theorem unchanged_check_reports_nothing:
  "(\<forall>stored current.
      map_of kv url = Some (PList stored) \<and> set stored = PStr ` set current \<and>
      fetch_and_parse e url = Inr current \<longrightarrow>
      (\<exists>lg. check_one e (PDict kv) url =
         (PDict kv, lg,
          \<lparr>sitemap_url = url, total_urls = length current, new_urls = [], error = []\<rparr>))) \<and>
   ((\<forall>u \<in> set urls. unchanged e kv u) \<longrightarrow>
      (\<exists>lg rs. check_loop e (PDict kv) urls = (PDict kv, lg, rs) \<and>
         (\<forall>r \<in> set rs. new_urls r = [] \<and> error r = [])))"
  using check_one_same [of kv url _ _ e] check_loop_unchanged [of urls e kv]
  by blast


theorem unchanged_check_reports_nothing_witness:
  "map_of [(''http://a.t/s1.xml'', PList [PStr ''http://a.t/1''])] ''http://a.t/s1.xml'' =
     Some (PList [PStr ''http://a.t/1'']) \<and>
   fetch_and_parse site_env ''http://a.t/s1.xml'' = Inr [''http://a.t/1''] \<and>
   unchanged site_env [(''http://a.t/s1.xml'', PList [PStr ''http://a.t/1''])] ''http://a.t/s1.xml'' \<and>
   (\<exists>lg. check_one site_env (PDict [(''http://a.t/s1.xml'', PList [PStr ''http://a.t/1''])])
            ''http://a.t/s1.xml'' =
      (PDict [(''http://a.t/s1.xml'', PList [PStr ''http://a.t/1''])], lg,
       \<lparr>sitemap_url = ''http://a.t/s1.xml'', total_urls = 1, new_urls = [], error = []\<rparr>)) \<and>
   (\<exists>lg rs. check_loop site_env (PDict [(''http://a.t/s1.xml'', PList [PStr ''http://a.t/1''])])
               [''http://a.t/s1.xml'', ''http://a.t/s1.xml''] =
      (PDict [(''http://a.t/s1.xml'', PList [PStr ''http://a.t/1''])], lg, rs))"
proof -
  have m: "map_of [(''http://a.t/s1.xml'', PList [PStr ''http://a.t/1''])] ''http://a.t/s1.xml'' =
     Some (PList [PStr ''http://a.t/1''])"
    by simp
  have s: "set [PStr ''http://a.t/1''] = PStr ` set [''http://a.t/1'']"
    by simp
  have f: "fetch_and_parse site_env ''http://a.t/s1.xml'' = Inr [''http://a.t/1'']"
    by code_simp
  have u: "unchanged site_env [(''http://a.t/s1.xml'', PList [PStr ''http://a.t/1''])]
      ''http://a.t/s1.xml''"
    by (simp add: unchanged_def f)
  have all: "\<forall>u \<in> set [''http://a.t/s1.xml'', ''http://a.t/s1.xml''].
      unchanged site_env [(''http://a.t/s1.xml'', PList [PStr ''http://a.t/1''])] u"
    using u by simp
  note t = unchanged_check_reports_nothing
    [of "[(''http://a.t/s1.xml'', PList [PStr ''http://a.t/1''])]" "''http://a.t/s1.xml''"
        site_env "[''http://a.t/s1.xml'', ''http://a.t/s1.xml'']"]
  have one: "\<exists>lg. check_one site_env (PDict [(''http://a.t/s1.xml'', PList [PStr ''http://a.t/1''])])
            ''http://a.t/s1.xml'' =
      (PDict [(''http://a.t/s1.xml'', PList [PStr ''http://a.t/1''])], lg,
       \<lparr>sitemap_url = ''http://a.t/s1.xml'', total_urls = 1, new_urls = [], error = []\<rparr>)"
    using t m s f by force
  have many: "\<exists>lg rs. check_loop site_env (PDict [(''http://a.t/s1.xml'', PList [PStr ''http://a.t/1''])])
               [''http://a.t/s1.xml'', ''http://a.t/s1.xml''] =
      (PDict [(''http://a.t/s1.xml'', PList [PStr ''http://a.t/1''])], lg, rs)"
    using t all by blast
  from m f u one many show ?thesis by blast
qed


lemma robots_lookup_env:
  assumes "requests_get e' = requests_get e"
  shows "robots_lookup e' p = robots_lookup e p"
  unfolding robots_lookup_def assms by (rule refl)

lemma html_case_env:
  assumes "requests_get e' = requests_get e"
  shows "html_case e' rec p url content flag = html_case e rec p url content flag"
  unfolding html_case_def robots_lookup_env [OF assms] by (rule refl)

lemma request_and_follow_env:
  assumes "requests_get e' = requests_get e"
  shows "request_and_follow e' rec p url flag = request_and_follow e rec p url flag"
  unfolding request_and_follow_def html_case_env [OF assms] assms by (rule refl)

lemma fetch_sitemap_body_env:
  assumes "requests_get e' = requests_get e" and "urlparse e' = urlparse e"
  shows "fetch_sitemap_body e' rec url flag = fetch_sitemap_body e rec url flag"
  unfolding fetch_sitemap_body_def request_and_follow_env [OF assms(1)] assms(2) by (rule refl)

lemma fetch_sitemap_env:
  assumes "requests_get e' = requests_get e" and "urlparse e' = urlparse e"
  shows "fetch_sitemap e' n url flag = fetch_sitemap e n url flag"
proof (induction n arbitrary: url flag)
  case 0
  show ?case by simp
next
  case (Suc n)
  have "(\<lambda>u f. fetch_sitemap e' n u f) = (\<lambda>u f. fetch_sitemap e n u f)"
    using Suc.IH by blast
  then show ?case
    by (simp add: fetch_sitemap_body_env [OF assms])
qed

lemma xml_case_env:
  assumes "etree_fromstring e' = etree_fromstring e"
  shows "xml_case e' fetch rec c = xml_case e fetch rec c"
  unfolding xml_case_def assms by (rule refl)

lemma html_urls_loop_env2:
  assumes "urljoin e' = urljoin e"
  shows "html_urls_loop e' base xs acc = html_urls_loop e base xs acc"
  by (induction xs arbitrary: acc) (simp_all add: assms split: sum.splits)

lemma html_urls_case_env2:
  assumes "urlparse e' = urlparse e" and "urljoin e' = urljoin e"
  shows "html_urls_case e' c hs = html_urls_case e c hs"
  unfolding html_urls_case_def assms(1) html_urls_loop_env2 [OF assms(2)] by (rule refl)

lemma parse_sitemap_body_env:
  assumes "urlparse e' = urlparse e" and "urljoin e' = urljoin e"
      and "etree_fromstring e' = etree_fromstring e"
  shows "parse_sitemap_body e' fetch rec c = parse_sitemap_body e fetch rec c"
  unfolding parse_sitemap_body_def html_urls_case_env2 [OF assms(1,2)] xml_case_env [OF assms(3)]
  by (rule refl)

lemma parse_sitemap_env:
  assumes "requests_get e' = requests_get e" and "urlparse e' = urlparse e"
      and "urljoin e' = urljoin e" and "etree_fromstring e' = etree_fromstring e"
  shows "parse_sitemap e' n c = parse_sitemap e n c"
proof (induction n arbitrary: c)
  case 0
  show ?case by simp
next
  case (Suc n)
  have "(\<lambda>c. parse_sitemap e' n c) = (\<lambda>c. parse_sitemap e n c)"
    using Suc.IH by blast
  then show ?case
    by (simp add: parse_sitemap_body_env [OF assms(2-4)] fetch_sitemap_env [OF assms(1,2)])
qed

lemma check_one_env:
  assumes "requests_get e' = requests_get e" and "urlparse e' = urlparse e"
      and "urljoin e' = urljoin e" and "etree_fromstring e' = etree_fromstring e"
      and "recursion_limit e' = recursion_limit e"
  shows "check_one e' k url = check_one e k url"
  unfolding check_one_def parse_sitemap_env [OF assms(1-4)] fetch_sitemap_env [OF assms(1,2)]
    assms(5)
  by (rule refl)

lemma check_loop_env:
  assumes "requests_get e' = requests_get e" and "urlparse e' = urlparse e"
      and "urljoin e' = urljoin e" and "etree_fromstring e' = etree_fromstring e"
      and "recursion_limit e' = recursion_limit e"
  shows "check_loop e' k urls = check_loop e k urls"
  by (induction urls arbitrary: k) (simp_all add: check_one_env [OF assms])

lemma load_known_urls_value_env:
  assumes "json_load e' = json_load e" and "open_read_error e' = open_read_error e"
  shows "snd (snd (load_known_urls e' d)) = snd (snd (load_known_urls e d))"
  using assms
  by (simp add: load_known_urls_def load_known_urls_body_def open_r_def open_w_def Let_def
      split: option.splits sum.splits)

lemma initial_known_value_env:
  assumes "json_load e' = json_load e" and "open_read_error e' = open_read_error e"
  shows "snd (snd (initial_known e' d)) = snd (snd (initial_known e d))"
proof -
  obtain d1 lg v where a: "load_known_urls e d = (d1, lg, Inr v)"
    using load_known_urls_returns by blast
  obtain d1' lg' v' where b: "load_known_urls e' d = (d1', lg', Inr v')"
    using load_known_urls_returns by blast
  from load_known_urls_value_env [OF assms, of d] a b have "v' = v" by simp
  with a b show ?thesis by (simp add: initial_known_def)
qed

lemma check_sitemaps_results:
  "snd (snd (check_sitemaps e d urls)) =
   snd (snd (check_loop e (snd (snd (initial_known e d))) urls))"
  by (simp add: check_sitemaps_def split: prod.splits)

lemma check_sitemaps_disk:
  "initial_known e d = (d1, lg0, k0) \<Longrightarrow>
   fst (check_sitemaps e d urls) =
     (if py_truthy (fst (check_loop e k0 urls))
      then fst (save_known_urls e d1 (fst (check_loop e k0 urls))) else d1)"
  by (auto simp add: check_sitemaps_def final_save_def split: prod.splits sum.splits)

lemma check_loop_skip_failed:
  assumes "fetch_and_parse e url = Inl ex"
  shows "\<exists>k2 lg lg' rs1 rs2.
           check_loop e k (pre @ post) = (k2, lg', rs1 @ rs2) \<and> length rs1 = length pre \<and>
           check_loop e k (pre @ url # post) =
             (k2, lg, rs1 @ \<lparr>sitemap_url = url, total_urls = 0, new_urls = [],
                             error = str_exn ex\<rparr> # rs2)"
proof -
  obtain k1 lg1 rs1 where l1: "check_loop e k pre = (k1, lg1, rs1)"
    by (cases "check_loop e k pre") auto
  have len: "length rs1 = length pre"
    using check_loop_urls [of e k pre] l1 by (metis length_map snd_conv)
  from check_one_failed [OF assms, of k1]
  obtain lgf where c: "check_one e k1 url =
      (k1, lgf, \<lparr>sitemap_url = url, total_urls = 0, new_urls = [], error = str_exn ex\<rparr>)"
    by blast
  obtain k2 lg2 rs2 where l2: "check_loop e k1 post = (k2, lg2, rs2)"
    by (cases "check_loop e k1 post") auto
  have a: "check_loop e k (pre @ post) = (k2, lg1 @ lg2, rs1 @ rs2)"
    by (simp add: check_loop_append l1 l2)
  have b: "check_loop e k (pre @ url # post) =
      (k2, lg1 @ lgf @ lg2,
       rs1 @ \<lparr>sitemap_url = url, total_urls = 0, new_urls = [], error = str_exn ex\<rparr> # rs2)"
    by (simp add: check_loop_append l1 c l2)
  from a b len show ?thesis by blast
qed


lemma check_sitemaps_skip_failed:
  assumes "fetch_and_parse e url = Inl ex"
  shows "\<exists>d2 lg lg' rs1 rs2.
           check_sitemaps e d (pre @ post) = (d2, lg', rs1 @ rs2) \<and> length rs1 = length pre \<and>
           check_sitemaps e d (pre @ url # post) =
             (d2, lg, rs1 @ \<lparr>sitemap_url = url, total_urls = 0, new_urls = [],
                             error = str_exn ex\<rparr> # rs2)"
proof -
  obtain d1 lg0 k0 where i: "initial_known e d = (d1, lg0, k0)"
    by (cases "initial_known e d") auto
  from check_loop_skip_failed [OF assms, of k0 pre post]
  obtain k2 lg lg' rs1 rs2 where a: "check_loop e k0 (pre @ post) = (k2, lg', rs1 @ rs2)"
    and len: "length rs1 = length pre"
    and b: "check_loop e k0 (pre @ url # post) =
             (k2, lg, rs1 @ \<lparr>sitemap_url = url, total_urls = 0, new_urls = [],
                             error = str_exn ex\<rparr> # rs2)"
    by blast
  obtain d2 lg4 where f: "final_save e d1 k2 = (d2, lg4)"
    by (cases "final_save e d1 k2") auto
  have "check_sitemaps e d (pre @ post) = (d2, lg0 @ lg' @ lg4, rs1 @ rs2)"
    by (simp add: check_sitemaps_def i a f del: check_loop.simps)
  moreover have "check_sitemaps e d (pre @ url # post) =
      (d2, lg0 @ lg @ lg4,
       rs1 @ \<lparr>sitemap_url = url, total_urls = 0, new_urls = [], error = str_exn ex\<rparr> # rs2)"
    by (simp add: check_sitemaps_def i b f del: check_loop.simps)
  ultimately show ?thesis using len by blast
qed

lemma check_sitemaps_results_env:
  "snd (snd (check_sitemaps (e\<lparr>open_write_error := w, replace_error := r, json_dumps := j\<rparr>)
               d urls)) =
   snd (snd (check_sitemaps e d urls))"
proof -
  let ?e' = "e\<lparr>open_write_error := w, replace_error := r, json_dumps := j\<rparr>"
  have k: "snd (snd (initial_known ?e' d)) = snd (snd (initial_known e d))"
    by (rule initial_known_value_env) simp_all
  have l: "check_loop ?e' (snd (snd (initial_known e d))) urls =
      check_loop e (snd (snd (initial_known e d))) urls"
    by (rule check_loop_env) simp_all
  show ?thesis
    by (simp only: check_sitemaps_results k l)
qed

lemma site_specific_message:
  "site_specific url domain = (lg, Inl ex) \<Longrightarrow> str_exn ex \<noteq> []"
  by (auto simp: site_specific_def split: if_splits)

lemma robots_case_message:
  "robots_case rec content f = (lg, Inl ex) \<Longrightarrow> str_exn ex \<noteq> []"
  by (auto simp: robots_case_def Let_def split: list.splits if_splits prod.splits sum.splits)

lemma robots_lookup_message:
  "raises_with_message e \<Longrightarrow> robots_lookup e p = (lg, Some (Inl ex)) \<Longrightarrow> str_exn ex \<noteq> []"
  by (auto simp: robots_lookup_def Let_def raises_with_message_def
      split: sum.splits if_splits list.splits)

lemma html_case_message:
  assumes "raises_with_message e"
      and "\<And>u f lg ex. rec u f = (lg, Inl ex) \<Longrightarrow> str_exn ex \<noteq> []"
      and "html_case e rec p url content f = (lg, Inl ex)"
  shows "str_exn ex \<noteq> []"
  using assms(3) assms(2) robots_lookup_message [OF assms(1)]
  by (auto simp: html_case_def Let_def split: if_splits list.splits prod.splits option.splits)

lemma request_and_follow_message:
  assumes "raises_with_message e"
      and "\<And>u f lg ex. rec u f = (lg, Inl ex) \<Longrightarrow> str_exn ex \<noteq> []"
      and "request_and_follow e rec p url f = (lg, Inl ex)"
  shows "str_exn ex \<noteq> []"
proof (cases "requests_get e url")
  case (Inl x)
  with assms(1,3) show ?thesis
    by (auto simp: request_and_follow_def Let_def raises_with_message_def)
next
  case (Inr resp)
  show ?thesis
  proof (cases "http_error resp")
    case (Some m)
    from assms(1) Inr have "http_error resp \<noteq> Some []"
      by (auto simp: raises_with_message_def)
    with Some assms(3) Inr show ?thesis
      by (auto simp: request_and_follow_def Let_def)
  next
    case None
    with assms(3) Inr show ?thesis
      using robots_case_message [of rec] html_case_message [OF assms(1), of rec] assms(2)
      by (auto simp: request_and_follow_def Let_def split: if_splits prod.splits)
  qed
qed

lemma fetch_sitemap_body_message:
  assumes "raises_with_message e"
      and "\<And>u f lg ex. rec u f = (lg, Inl ex) \<Longrightarrow> str_exn ex \<noteq> []"
      and "fetch_sitemap_body e rec url f = (lg, Inl ex)"
  shows "str_exn ex \<noteq> []"
proof (cases "urlparse e url")
  case (Inl x)
  with assms(1,3) show ?thesis
    by (auto simp: fetch_sitemap_body_def raises_with_message_def)
next
  case (Inr p)
  with assms(3) show ?thesis
    using site_specific_message request_and_follow_message [OF assms(1), of rec] assms(2)
    by (auto simp: fetch_sitemap_body_def split: prod.splits sum.splits if_splits)
qed

lemma fetch_sitemap_message:
  "raises_with_message e \<Longrightarrow> fetch_sitemap e n url f = (lg, Inl ex) \<Longrightarrow> str_exn ex \<noteq> []"
proof (induction n arbitrary: url f lg ex)
  case 0
  then show ?case by (auto simp: recursion_error_def)
next
  case (Suc n)
  from Suc.prems(2) have "fetch_sitemap_body e (\<lambda>u f. fetch_sitemap e n u f) url f = (lg, Inl ex)"
    by simp
  from fetch_sitemap_body_message [OF Suc.prems(1) _ this] Suc.IH [OF Suc.prems(1)]
  show ?case by blast
qed

lemma html_urls_case_message:
  "raises_with_message e \<Longrightarrow> html_urls_case e c hs = (lg, Inl ex) \<Longrightarrow> str_exn ex \<noteq> []"
  by (auto simp: html_urls_case_def Let_def raises_with_message_def
      split: sum.splits dest!: html_urls_loop_Inl)

lemma xml_case_message:
  "raises_with_message e \<Longrightarrow> xml_case e fetch rec c = (lg, Inl ex) \<Longrightarrow> str_exn ex \<noteq> []"
  by (auto simp: xml_case_def Let_def raises_with_message_def
      split: sum.splits if_splits prod.splits)

lemma parse_sitemap_message:
  "raises_with_message e \<Longrightarrow> parse_sitemap e n c = (lg, Inl ex) \<Longrightarrow> str_exn ex \<noteq> []"
proof (cases n)
  case 0
  assume "parse_sitemap e n c = (lg, Inl ex)"
  with 0 show ?thesis by (auto simp: recursion_error_def)
next
  case (Suc m)
  assume "raises_with_message e" "parse_sitemap e n c = (lg, Inl ex)"
  with Suc show ?thesis
    by (auto simp: parse_sitemap_body_def Let_def
        split: if_splits prod.splits dest: xml_case_message html_urls_case_message)
qed

lemma fetch_and_parse_message:
  "raises_with_message e \<Longrightarrow> fetch_and_parse e url = Inl ex \<Longrightarrow> str_exn ex \<noteq> []"
  by (auto simp: fetch_and_parse_def split: prod.splits sum.splits
      dest: fetch_sitemap_message parse_sitemap_message)

lemma site_env_raises_with_message: "raises_with_message site_env"
  by (simp add: raises_with_message_def site_env_def offline_env_def ok_response_def
      example_urlparse_def example_urljoin_def)

text \<open>
  Claim C3, amended. \<^verbatim>\<open>check_sitemaps\<close> returns one result for each URL of its argument, in
  the order of the argument. When fetch or parse of a URL raises, the result for that URL
  has no URLs and has the message of the exception as its error, which is not empty when
  the exceptions of the libraries have a message; and the results for the other URLs and
  the final content of the disk are those of the run without that URL. After the loop the
  stored URLs go through one call of \<^verbatim>\<open>save_known_urls\<close> when they are a true value (when the
  dictionary is not empty), and nothing is written when they are not. The results are the
  same whatever \<^verbatim>\<open>json.dumps\<close>, the opening of a file for writing and \<^verbatim>\<open>os.replace\<close> do.
\<close>

theorem check_sitemaps_per_url:
  "(\<exists>d2 lg rs. check_sitemaps e d urls = (d2, lg, rs) \<and> map sitemap_url rs = urls) \<and>
   (\<forall>pre url post ex.
      urls = pre @ url # post \<and> fetch_and_parse e url = Inl ex \<longrightarrow>
      (\<exists>d2 lg lg' rs1 rs2 r.
         check_sitemaps e d (pre @ post) = (d2, lg', rs1 @ rs2) \<and> length rs1 = length pre \<and>
         check_sitemaps e d urls = (d2, lg, rs1 @ r # rs2) \<and>
         r = \<lparr>sitemap_url = url, total_urls = 0, new_urls = [], error = str_exn ex\<rparr> \<and>
         (raises_with_message e \<longrightarrow> error r \<noteq> []))) \<and>
   (\<forall>d1 lg0 k0.
      initial_known e d = (d1, lg0, k0) \<longrightarrow>
      fst (check_sitemaps e d urls) =
        (if py_truthy (fst (check_loop e k0 urls))
         then fst (save_known_urls e d1 (fst (check_loop e k0 urls))) else d1)) \<and>
   (\<forall>w r j.
      snd (snd (check_sitemaps (e\<lparr>open_write_error := w, replace_error := r, json_dumps := j\<rparr>)
                  d urls)) =
      snd (snd (check_sitemaps e d urls)))"
proof (intro conjI allI impI)
  have "map sitemap_url (snd (snd (check_sitemaps e d urls))) = urls"
    by (simp only: check_sitemaps_results check_loop_urls)
  then show "\<exists>d2 lg rs. check_sitemaps e d urls = (d2, lg, rs) \<and> map sitemap_url rs = urls"
    by (cases "check_sitemaps e d urls") auto
next
  fix pre url post ex
  assume a: "urls = pre @ url # post \<and> fetch_and_parse e url = Inl ex"
  then obtain d2 lg lg' rs1 rs2 where
    s: "check_sitemaps e d (pre @ post) = (d2, lg', rs1 @ rs2)" "length rs1 = length pre"
       "check_sitemaps e d urls =
           (d2, lg, rs1 @ \<lparr>sitemap_url = url, total_urls = 0, new_urls = [],
                           error = str_exn ex\<rparr> # rs2)"
    using check_sitemaps_skip_failed [of e url ex d pre post] by auto
  have m: "raises_with_message e \<longrightarrow>
           error \<lparr>sitemap_url = url, total_urls = 0, new_urls = [], error = str_exn ex\<rparr> \<noteq> []"
    using a fetch_and_parse_message [of e url ex] by simp
  from s m show "\<exists>d2 lg lg' rs1 rs2 r.
         check_sitemaps e d (pre @ post) = (d2, lg', rs1 @ rs2) \<and> length rs1 = length pre \<and>
         check_sitemaps e d urls = (d2, lg, rs1 @ r # rs2) \<and>
         r = \<lparr>sitemap_url = url, total_urls = 0, new_urls = [], error = str_exn ex\<rparr> \<and>
         (raises_with_message e \<longrightarrow> error r \<noteq> [])"
    by blast
next
  fix d1 lg0 k0
  assume "initial_known e d = (d1, lg0, k0)"
  then show "fst (check_sitemaps e d urls) =
        (if py_truthy (fst (check_loop e k0 urls))
         then fst (save_known_urls e d1 (fst (check_loop e k0 urls))) else d1)"
    by (rule check_sitemaps_disk)
next
  fix w r j
  show "snd (snd (check_sitemaps (e\<lparr>open_write_error := w, replace_error := r, json_dumps := j\<rparr>)
                  d urls)) =
      snd (snd (check_sitemaps e d urls))"
    by (rule check_sitemaps_results_env)
qed

theorem check_sitemaps_per_url_witness:
  "raises_with_message site_env \<and>
   fetch_and_parse site_env ''http://a.t/gone.xml'' =
     Inl (Exn RequestException ''404 Client Error: Not Found for url: http://a.t/gone.xml'') \<and>
   (\<exists>d2 lg lg' r.
      check_sitemaps site_env empty_disk [''http://a.t/s1.xml''] =
        (d2, lg',
         [\<lparr>sitemap_url = ''http://a.t/s1.xml'', total_urls = 1,
            new_urls = [''http://a.t/1''], error = []\<rparr>]) \<and>
      check_sitemaps site_env empty_disk [''http://a.t/gone.xml'', ''http://a.t/s1.xml''] =
        (d2, lg,
         [r,
          \<lparr>sitemap_url = ''http://a.t/s1.xml'', total_urls = 1,
            new_urls = [''http://a.t/1''], error = []\<rparr>]) \<and>
      r = \<lparr>sitemap_url = ''http://a.t/gone.xml'', total_urls = 0, new_urls = [],
            error = ''404 Client Error: Not Found for url: http://a.t/gone.xml''\<rparr> \<and>
      error r \<noteq> [] \<and>
      d2 KNOWN_URLS_FILE = Some store_1)"
proof -
  have m: "raises_with_message site_env"
    by (rule site_env_raises_with_message)
  have f: "fetch_and_parse site_env ''http://a.t/gone.xml'' =
     Inl (Exn RequestException ''404 Client Error: Not Found for url: http://a.t/gone.xml'')"
    by code_simp
  have r: "snd (snd (check_sitemaps site_env empty_disk [''http://a.t/s1.xml''])) =
     [\<lparr>sitemap_url = ''http://a.t/s1.xml'', total_urls = 1,
            new_urls = [''http://a.t/1''], error = []\<rparr>]"
    by code_simp
  have k: "fst (check_sitemaps site_env empty_disk [''http://a.t/s1.xml'']) KNOWN_URLS_FILE =
     Some store_1"
    by code_simp
  have sp: "[''http://a.t/gone.xml'', ''http://a.t/s1.xml''] =
      [] @ ''http://a.t/gone.xml'' # [''http://a.t/s1.xml'']"
    by simp
  have st: "str_exn (Exn RequestException
              ''404 Client Error: Not Found for url: http://a.t/gone.xml'') =
            ''404 Client Error: Not Found for url: http://a.t/gone.xml''"
    by simp
  note t = check_sitemaps_per_url
    [of site_env empty_disk "[''http://a.t/gone.xml'', ''http://a.t/s1.xml'']",
     THEN conjunct2, THEN conjunct1, rule_format, OF conjI [OF sp f]]
  from t obtain d2 lg lg' rs1 rs2 r0 where
    a: "check_sitemaps site_env empty_disk ([] @ [''http://a.t/s1.xml'']) = (d2, lg', rs1 @ rs2)"
    and len: "length rs1 = length ([] :: string list)"
    and b: "check_sitemaps site_env empty_disk [''http://a.t/gone.xml'', ''http://a.t/s1.xml''] =
           (d2, lg, rs1 @ r0 # rs2)"
    and r0: "r0 = \<lparr>sitemap_url = ''http://a.t/gone.xml'', total_urls = 0, new_urls = [],
                  error = str_exn (Exn RequestException
                             ''404 Client Error: Not Found for url: http://a.t/gone.xml'')\<rparr>"
    and ne: "raises_with_message site_env \<longrightarrow> error r0 \<noteq> []"
    by blast
  from len have e: "rs1 = []" by simp
  from a e have a': "check_sitemaps site_env empty_disk [''http://a.t/s1.xml''] = (d2, lg', rs2)"
    by simp
  from a' r have rs2: "rs2 = [\<lparr>sitemap_url = ''http://a.t/s1.xml'', total_urls = 1,
            new_urls = [''http://a.t/1''], error = []\<rparr>]"
    by simp
  from a' k have d: "d2 KNOWN_URLS_FILE = Some store_1"
    by simp
  from b e have b': "check_sitemaps site_env empty_disk [''http://a.t/gone.xml'', ''http://a.t/s1.xml''] =
           (d2, lg, r0 # rs2)"
    by simp
  from r0 have r0': "r0 = \<lparr>sitemap_url = ''http://a.t/gone.xml'', total_urls = 0, new_urls = [],
            error = ''404 Client Error: Not Found for url: http://a.t/gone.xml''\<rparr>"
    unfolding st .
  from ne m have ne': "error r0 \<noteq> []" by (rule mp)
  from m f a' b' r0' ne' d show ?thesis
    unfolding rs2 by blast
qed


text \<open>
  Claim C3 as the specification states it fails where the stored URLs are empty after the
  loop: nothing is persisted. On a disk without a store file, the check of one URL that
  fails leaves the disk without a store file, where a call of \<^verbatim>\<open>save_known_urls\<close> with the
  empty dictionary would have written one.
\<close>

theorem check_sitemaps_nothing_persisted:
  "snd (snd (check_sitemaps offline_env empty_disk [''https://x.com/''])) =
     [\<lparr>sitemap_url = ''https://x.com/'', total_urls = 0, new_urls = [],
       error = ''This site doesn't provide public sitemaps''\<rparr>] \<and>
   fst (check_sitemaps offline_env empty_disk [''https://x.com/'']) KNOWN_URLS_FILE = None \<and>
   fst (save_known_urls offline_env empty_disk (PDict [])) KNOWN_URLS_FILE = Some ''{}''"
proof -
  have a: "snd (snd (check_sitemaps offline_env empty_disk [''https://x.com/''])) =
     [\<lparr>sitemap_url = ''https://x.com/'', total_urls = 0, new_urls = [],
       error = ''This site doesn't provide public sitemaps''\<rparr>]"
    by code_simp
  have b: "fst (check_sitemaps offline_env empty_disk [''https://x.com/'']) KNOWN_URLS_FILE = None"
    by code_simp
  have c: "fst (save_known_urls offline_env empty_disk (PDict [])) KNOWN_URLS_FILE = Some ''{}''"
    by code_simp
  from a b c show ?thesis by blast
qed


end
